theory Spec2Isabelle
  imports Complex_Main "HOL-Library.Sublist"
begin

section \<open>The JavaScript runtime the parser and the formatter rely on\<close>

text \<open>
  A line is a \<open>string\<close>: a list of 8-bit characters, read as the UTF-16 code units
  U+0000 to U+00FF (Latin-1). Its length is the number of code units, as
  \<^verbatim>\<open>line.length\<close> is. The functions of this section are the built-ins the source calls,
  written after ECMA-262 for that range of code units.
\<close>

subsection \<open>Characters and strings\<close>

definition is_space :: "char \<Rightarrow> bool" where
  \<comment> \<open>the class \<^verbatim>\<open>\s\<close>: TAB, LF, VT, FF, CR, SP and NBSP are its members below U+0100;
      \<^verbatim>\<open>trim\<close> and \<^verbatim>\<open>trimStart\<close> strip the same characters\<close>
  "is_space c = ((of_char c :: nat) \<in> {9, 10, 11, 12, 13, 32, 160})"

definition is_digit :: "char \<Rightarrow> bool" where
  "is_digit c = (48 \<le> (of_char c :: nat) \<and> (of_char c :: nat) \<le> 57)"

definition char_at :: "string \<Rightarrow> nat \<Rightarrow> char option" where
  \<comment> \<open>\<^verbatim>\<open>s[i]\<close>: \<^verbatim>\<open>undefined\<close> (here \<open>None\<close>) out of range\<close>
  "char_at s i = (if i < length s then Some (s ! i) else None)"

definition test_space :: "char option \<Rightarrow> bool" where
  \<comment> \<open>\<^verbatim>\<open>/\s/.test(s[i])\<close>; \<^verbatim>\<open>undefined\<close> is tested as the text "undefined", which has no match\<close>
  "test_space x = (case x of None \<Rightarrow> False | Some c \<Rightarrow> is_space c)"

definition test_digit_dot :: "char option \<Rightarrow> bool" where
  \<comment> \<open>\<^verbatim>\<open>/[0-9.]/.test(s[i])\<close>\<close>
  "test_digit_dot x = (case x of None \<Rightarrow> False | Some c \<Rightarrow> is_digit c \<or> c = CHR ''.'')"

definition test_digit :: "char option \<Rightarrow> bool" where
  \<comment> \<open>\<^verbatim>\<open>/[0-9]/.test(s[i])\<close>\<close>
  "test_digit x = (case x of None \<Rightarrow> False | Some c \<Rightarrow> is_digit c)"

definition js_slice :: "string \<Rightarrow> nat \<Rightarrow> nat \<Rightarrow> string" where
  \<comment> \<open>\<^verbatim>\<open>s.slice(a, b)\<close> for \<open>0 \<le> a\<close>, \<open>0 \<le> b\<close>: both ends are clamped to the length\<close>
  "js_slice s a b = take (b - a) (drop a s)"

definition js_trimStart :: "string \<Rightarrow> string" where
  "js_trimStart s = dropWhile is_space s"

definition js_trim :: "string \<Rightarrow> string" where
  "js_trim s = rev (dropWhile is_space (rev (dropWhile is_space s)))"

definition lower_char :: "char \<Rightarrow> char" where
  \<comment> \<open>A to Z, and U+00C0 to U+00DE without the multiplication sign, have a lower case
      32 code units further (bit 5 set); every other code unit below U+0100 is unchanged\<close>
  "lower_char c =
     (let n = (of_char c :: nat)
      in if (65 \<le> n \<and> n \<le> 90) \<or> (192 \<le> n \<and> n \<le> 222 \<and> n \<noteq> 215)
         then Char (digit0 c) (digit1 c) (digit2 c) (digit3 c) (digit4 c) True (digit6 c) (digit7 c)
         else c)"

definition js_toLowerCase :: "string \<Rightarrow> string" where
  "js_toLowerCase s = map lower_char s"

definition js_startsWith :: "string \<Rightarrow> string \<Rightarrow> bool" where
  "js_startsWith s p = (take (length p) s = p)"

fun js_includes :: "string \<Rightarrow> string \<Rightarrow> bool" where
  \<comment> \<open>\<^verbatim>\<open>s.includes(p)\<close>: \<open>p\<close> occurs in \<open>s\<close> at some offset\<close>
  "js_includes [] p = (p = [])"
| "js_includes (c # cs) p = (js_startsWith (c # cs) p \<or> js_includes cs p)"

fun js_split_nl :: "string \<Rightarrow> string list" where
  \<comment> \<open>\<^verbatim>\<open>text.split('\n')\<close>: one piece more than there are line feeds\<close>
  "js_split_nl [] = [[]]"
| "js_split_nl (c # cs) =
     (if c = CHR 0x0A then [] # js_split_nl cs
      else (case js_split_nl cs of
              [] \<Rightarrow> [[c]]
            | l # ls \<Rightarrow> (c # l) # ls))"

fun js_join_nl :: "string list \<Rightarrow> string" where
  \<comment> \<open>\<^verbatim>\<open>lines.join('\n')\<close>\<close>
  "js_join_nl [] = []"
| "js_join_nl [l] = l"
| "js_join_nl (l # m # ls) = l @ CHR 0x0A # js_join_nl (m # ls)"

fun js_join_sp :: "string list \<Rightarrow> string" where
  \<comment> \<open>\<^verbatim>\<open>values.join(' ')\<close>\<close>
  "js_join_sp [] = []"
| "js_join_sp [l] = l"
| "js_join_sp (l # m # ls) = l @ CHR '' '' # js_join_sp (m # ls)"

subsection \<open>Numbers\<close>

text \<open>
  A Number is NaN, an infinity, or a finite double. \<open>Fin m e\<close> is the double of value
  \<open>m * 2 ^ e\<close>; the two zeros are not told apart (no function below does).
\<close>

datatype jsnum = NaN | PosInf | NegInf | Fin int int

definition digit_val :: "char \<Rightarrow> nat" where
  "digit_val c = of_char c - 48"

definition digits_val :: "string \<Rightarrow> nat" where
  "digits_val ds = foldl (\<lambda>a c. 10 * a + digit_val c) 0 ds"

definition digit_char :: "nat \<Rightarrow> char" where
  "digit_char d = ''0123456789'' ! d"

function nat_to_dec :: "nat \<Rightarrow> string" where
  "nat_to_dec n = (if n < 10 then [digit_char n] else nat_to_dec (n div 10) @ [digit_char (n mod 10)])"
  by pat_completeness auto
termination
  by (relation "measure id") auto

declare nat_to_dec.simps [simp del]

function bit_length :: "nat \<Rightarrow> nat" where
  "bit_length n = (if n = 0 then 0 else Suc (bit_length (n div 2)))"
  by pat_completeness auto
termination
  by (relation "measure id") auto

declare bit_length.simps [simp del]

definition round_ratio :: "bool \<Rightarrow> nat \<Rightarrow> nat \<Rightarrow> jsnum" where
  \<comment> \<open>the double nearest to \<open>p / q\<close> (\<open>0 < q\<close>), ties to the even significand, with the
      sign \<open>neg\<close>: 53 bits of significand, exponents from -1074 (subnormal) to 971,
      infinity from \<open>2 ^ 1024\<close> on\<close>
  "round_ratio neg p q =
     (if p = 0 then Fin 0 0
      else
        let k = int (bit_length p) - int (bit_length q);
            fl = (if p * 2 ^ nat (- k) \<ge> q * 2 ^ nat k then k else k - 1);
            e = max (fl - 52) (- 1074);
            a = p * 2 ^ nat (- e);
            b = q * 2 ^ nat e;
            m0 = a div b;
            r = a mod b;
            m = (if 2 * r > b \<or> (2 * r = b \<and> odd m0) then m0 + 1 else m0)
        in if e > 971 \<or> (e = 971 \<and> m \<ge> 2 ^ 53)
           then (if neg then NegInf else PosInf)
           else Fin (if neg then - int m else int m) e)"

definition strip_sign :: "string \<Rightarrow> bool \<times> string" where
  "strip_sign s =
     (case s of
        [] \<Rightarrow> (False, [])
      | c # cs \<Rightarrow> if c = CHR ''+'' then (False, cs)
                  else if c = CHR ''-'' then (True, cs)
                  else (False, s))"

definition js_Number :: "string \<Rightarrow> jsnum" where
  \<comment> \<open>\<^verbatim>\<open>Number(str)\<close> on the strings \<^verbatim>\<open>parseNumberField\<close> builds: signs, digits, dots and
      exponent markers only. Such a string is a decimal literal (a sign, digits with at
      most one dot and at least one digit, an exponent part with at least one digit) and
      converts to the nearest double, or it is not and converts to NaN. The empty string
      converts to 0.\<close>
  "js_Number s =
     (if s = [] then Fin 0 0
      else
        let (neg, s1) = strip_sign s;
            ip = takeWhile is_digit s1;
            r1 = dropWhile is_digit s1;
            dot = (r1 \<noteq> [] \<and> hd r1 = CHR ''.'');
            fp = (if dot then takeWhile is_digit (tl r1) else []);
            r2 = (if dot then dropWhile is_digit (tl r1) else r1);
            ex = (r2 \<noteq> [] \<and> (hd r2 = CHR ''e'' \<or> hd r2 = CHR ''E''));
            (eneg, ed) = strip_sign (tl r2)
        in if ip = [] \<and> fp = [] then NaN
           else if r2 = [] then
             (if fp = [] then round_ratio neg (digits_val ip) 1
              else round_ratio neg (digits_val (ip @ fp)) (10 ^ length fp))
           else if ex \<and> ed \<noteq> [] \<and> (\<forall>c \<in> set ed. is_digit c) then
             (let e10 = (if eneg then - int (digits_val ed) else int (digits_val ed)) - int (length fp)
              in round_ratio neg (digits_val (ip @ fp) * 10 ^ nat e10) (10 ^ nat (- e10)))
           else NaN)"

definition same_value :: "jsnum \<Rightarrow> jsnum \<Rightarrow> bool" where
  "same_value x y =
     (case (x, y) of
        (Fin m e, Fin m' e') \<Rightarrow> m * 2 ^ nat (e - min e e') = m' * 2 ^ nat (e' - min e e')
      | _ \<Rightarrow> x = y)"

definition shortest_at :: "nat \<Rightarrow> nat \<Rightarrow> nat \<Rightarrow> jsnum \<Rightarrow> (nat \<times> nat) option" where
  \<comment> \<open>the \<open>k\<close>-digit decimals \<open>s * 10 ^ (n - k)\<close> next to \<open>v\<close> that convert back to the double
      \<open>x\<close> of value \<open>v\<close>: the nearer to \<open>v\<close> if both do, the even one if they are as near\<close>
  "shortest_at k n v x =
     (let u = 10 ^ (n - k);
          s0 = v div u;
          ok0 = same_value (round_ratio False (s0 * u) 1) x;
          ok1 = same_value (round_ratio False ((s0 + 1) * u) 1) x;
          up = (ok1 \<and> (\<not> ok0 \<or> (s0 + 1) * u - v < v - s0 * u
                       \<or> ((s0 + 1) * u - v = v - s0 * u \<and> odd s0)));
          s = (if up then s0 + 1 else s0)
      in if \<not> ok0 \<and> \<not> ok1 then None
         else if s = 10 ^ k then Some (10 ^ (k - 1), n + 1)
         else Some (s, n))"

fun shortest_digits :: "nat list \<Rightarrow> nat \<Rightarrow> nat \<Rightarrow> jsnum \<Rightarrow> nat \<times> nat" where
  "shortest_digits [] n v x = (v div 10 ^ (n - 17), n)"
| "shortest_digits (k # ks) n v x =
     (case shortest_at k n v x of
        Some r \<Rightarrow> r
      | None \<Rightarrow> shortest_digits ks n v x)"

definition exp_notation :: "nat \<Rightarrow> nat \<Rightarrow> string" where
  \<comment> \<open>the digits of \<open>s\<close>, a point after the first if there are more, and the exponent
      \<open>n - 1\<close> with its plus sign\<close>
  "exp_notation s n =
     (let ds = nat_to_dec s
      in (if length ds = 1 then ds else take 1 ds @ ''.'' @ drop 1 ds) @ ''e+'' @ nat_to_dec (n - 1))"

definition js_toString_large :: "nat \<Rightarrow> jsnum \<Rightarrow> string" where
  \<comment> \<open>\<^verbatim>\<open>Number::toString\<close> of the double \<open>x\<close> of value \<open>v \<ge> 10 ^ 21\<close>: the fewest digits
      (at most 17) that convert back to \<open>x\<close>, in exponent notation\<close>
  "js_toString_large v x =
     (case shortest_digits [1, 2, 3, 4, 5, 6, 7, 8, 9, 10, 11, 12, 13, 14, 15, 16, 17]
             (length (nat_to_dec v)) v x of
        (s, n) \<Rightarrow> exp_notation s n)"

definition fixed6_digits :: "nat \<Rightarrow> int \<Rightarrow> string" where
  \<comment> \<open>for a value \<open>a * 2 ^ e\<close> below \<open>10 ^ 21\<close>: the integer \<open>n\<close> nearest to
      \<open>a * 2 ^ e * 10 ^ 6\<close> (the larger of two), its digits padded with zeros to seven at
      least, and the point before the last six\<close>
  "fixed6_digits a e =
     (let n = (2 * a * 10 ^ 6 * 2 ^ nat e + 2 ^ nat (- e)) div (2 * 2 ^ nat (- e));
          ds = nat_to_dec n;
          ds' = (if length ds \<le> 6 then replicate (7 - length ds) CHR ''0'' @ ds else ds);
          k = length ds'
      in take (k - 6) ds' @ ''.'' @ drop (k - 6) ds')"

definition below_1e21 :: "nat \<Rightarrow> int \<Rightarrow> bool" where
  \<comment> \<open>\<open>a * 2 ^ e < 10 ^ 21\<close>\<close>
  "below_1e21 a e = (a * 2 ^ nat e < 10 ^ 21 * 2 ^ nat (- e))"

fun js_toFixed6 :: "jsnum \<Rightarrow> string" where
  \<comment> \<open>\<^verbatim>\<open>v.toFixed(6)\<close>: a value that is not finite as \<^verbatim>\<open>String(v)\<close>; a finite one from
      \<open>10 ^ 21\<close> on as \<^verbatim>\<open>String(v)\<close> too; any other in fixed-point notation, with a
      minus sign if it is below zero\<close>
  "js_toFixed6 NaN = ''NaN''"
| "js_toFixed6 PosInf = ''Infinity''"
| "js_toFixed6 NegInf = ''-Infinity''"
| "js_toFixed6 (Fin m e) =
     (if m < 0 then ''-'' else '''') @
     (if below_1e21 (nat \<bar>m\<bar>) e then fixed6_digits (nat \<bar>m\<bar>) e
      else js_toString_large (nat \<bar>m\<bar> * 2 ^ nat e) (Fin \<bar>m\<bar> e))"

section \<open>The node model (strict/nodes.ts, payload_interpreter/nodes.ts)\<close>

text \<open>
  Every property the types mark optional (\<^verbatim>\<open>?\<close>) is an \<open>option\<close>. The field
  \<^verbatim>\<open>value\<close> is named \<open>val\<close>, and the properties of each node kind carry a prefix
  of the kind, since one theory has one name space for record fields. The constant tags
  \<^verbatim>\<open>kind: "space"\<close>, \<^verbatim>\<open>kind: "instruction"\<close> and \<^verbatim>\<open>kind: "parameters"\<close> are
  left out; the tag of a line node is its constructor, read by \<open>kind\<close>.
\<close>

record Pos =
  line :: nat
  startColumn :: nat
  endColumn :: nat

record SpaceNode =
  rawText :: string
  space_pos :: Pos

record 'a FieldNode =
  val :: "'a option"
  pos :: "Pos option"

datatype Json =
  JNull | JBool bool | JNumber jsnum | JString string | JArray "Json list" | JObject "(string \<times> Json) list"

record CommentNode =
  c_space0First :: "SpaceNode option"
  c_hash :: "string FieldNode option"
  c_space0HashToComment :: "SpaceNode option"
  c_comment :: "string FieldNode option"
  c_space0AfterComment :: "SpaceNode option"

record TrackNameNode =
  tn_space0First :: "SpaceNode option"
  tn_literal :: "string FieldNode option"
  tn_space0LiteralToName :: "SpaceNode option"
  tn_name :: "string FieldNode option"
  tn_space0AfterName :: "SpaceNode option"

record TextNode =
  tx_space0First :: "SpaceNode option"
  tx_time :: "jsnum FieldNode option"
  tx_space1TimeToText :: "SpaceNode option"
  tx_text :: "string FieldNode option"
  tx_space0AfterText :: "SpaceNode option"

record MotionNode =
  m_space0First :: "SpaceNode option"
  m_time :: "jsnum FieldNode option"
  m_space1TimeToEvent :: "SpaceNode option"
  m_event :: "string FieldNode option"
  m_space1EventToX :: "SpaceNode option"
  m_x :: "jsnum FieldNode option"
  m_space1XToY :: "SpaceNode option"
  m_y :: "jsnum FieldNode option"
  m_space1YToZ :: "SpaceNode option"
  m_z :: "jsnum FieldNode option"
  m_space0AfterZ :: "SpaceNode option"

record RotationNode =
  r_space0First :: "SpaceNode option"
  r_time :: "jsnum FieldNode option"
  r_space1TimeToEvent :: "SpaceNode option"
  r_event :: "string FieldNode option"
  r_space1EventToDegrees :: "SpaceNode option"
  r_degrees :: "jsnum FieldNode option"
  r_space0AfterDegrees :: "SpaceNode option"

record JsonParseError =
  message :: string

record IFrameNode =
  if_space0First :: "SpaceNode option"
  if_time :: "jsnum FieldNode option"
  if_space1TimeToEvent :: "SpaceNode option"
  if_event :: "string FieldNode option"
  if_json :: "Json FieldNode option"
  if_space0AfterJson :: "SpaceNode option"
  if_jsonParseError :: "JsonParseError option"

record ParameterItemNode =
  separator :: "string FieldNode option"
  item_value :: "string FieldNode option"

record ParametersNode =
  items :: "ParameterItemNode list"
  params_pos :: "Pos option"

record InstructionNode =
  in_prefix :: "string FieldNode option"
  in_name :: "string FieldNode option"
  in_parameters :: "ParametersNode option"

record PayloadInstructionNode =
  pi_space0First :: "SpaceNode option"
  pi_time :: "jsnum FieldNode option"
  pi_space1TimeToEvent :: "SpaceNode option"
  pi_event :: "string FieldNode option"
  pi_dot :: "string FieldNode option"
  pi_instruction :: "InstructionNode option"

datatype HkannoNode =
  Rotation RotationNode
| Motion MotionNode
| Text TextNode
| Comment CommentNode
| TrackName TrackNameNode

datatype HkannoNodeExt =
  Common HkannoNode
| IFrame IFrameNode
| PayloadInstruction PayloadInstructionNode

fun kind :: "HkannoNode \<Rightarrow> string" where
  "kind (Rotation n) = ''rotation''"
| "kind (Motion n) = ''motion''"
| "kind (Text n) = ''text''"
| "kind (Comment n) = ''comment''"
| "kind (TrackName n) = ''trackName''"

fun kind_ext :: "HkannoNodeExt \<Rightarrow> string" where
  "kind_ext (Common n) = kind n"
| "kind_ext (IFrame n) = ''iframe''"
| "kind_ext (PayloadInstruction n) = ''payload_instruction''"

section \<open>The primitive field parsers (strict/parser.ts)\<close>

record ParserState =
  st_line :: string
  st_i :: nat
  st_lineNumber :: nat
  st_len :: nat

definition init_state :: "string \<Rightarrow> nat \<Rightarrow> ParserState" where
  \<comment> \<open>\<^verbatim>\<open>{ line, i: 0, lineNumber, len: line.length }\<close>\<close>
  "init_state l n = \<lparr>st_line = l, st_i = 0, st_lineNumber = n, st_len = length l\<rparr>"

definition makePos :: "nat \<Rightarrow> nat \<Rightarrow> nat \<Rightarrow> Pos" where
  "makePos lineNumber start end = \<lparr>line = lineNumber, startColumn = start + 1, endColumn = end + 1\<rparr>"

definition cur :: "ParserState \<Rightarrow> char option" where
  \<comment> \<open>\<^verbatim>\<open>state.line[state.i]\<close>\<close>
  "cur st = char_at (st_line st) (st_i st)"

definition advance :: "ParserState \<Rightarrow> ParserState" where
  \<comment> \<open>\<^verbatim>\<open>state.i++\<close>\<close>
  "advance st = st\<lparr>st_i := st_i st + 1\<rparr>"

definition append_char :: "string \<Rightarrow> char option \<Rightarrow> string" where
  \<comment> \<open>\<^verbatim>\<open>str += state.line[...]\<close>; \<^verbatim>\<open>undefined\<close> is appended as its name\<close>
  "append_char str x = (case x of None \<Rightarrow> str @ ''undefined'' | Some c \<Rightarrow> str @ [c])"

definition stop_includes :: "string \<Rightarrow> char option \<Rightarrow> bool" where
  \<comment> \<open>\<^verbatim>\<open>stopChars.includes(state.line[state.i])\<close>\<close>
  "stop_includes stopChars x =
     (case x of None \<Rightarrow> js_includes stopChars ''undefined'' | Some c \<Rightarrow> js_includes stopChars [c])"

function parseSpace_loop :: "ParserState \<Rightarrow> ParserState" where
  "parseSpace_loop st =
     (if st_i st < st_len st \<and> test_space (cur st) then parseSpace_loop (advance st) else st)"
  by pat_completeness auto
termination
  by (relation "measure (\<lambda>st. st_len st - st_i st)") (auto simp: advance_def)

declare parseSpace_loop.simps [simp del]

definition parseSpace :: "ParserState \<Rightarrow> SpaceNode option \<times> ParserState" where
  "parseSpace st =
     (let start = st_i st;
          st' = parseSpace_loop st
      in if st_i st' > start
         then (Some \<lparr>rawText = js_slice (st_line st') start (st_i st'),
                      space_pos = makePos (st_lineNumber st') start (st_i st')\<rparr>, st')
         else (None, st'))"

definition take_sign :: "ParserState \<Rightarrow> string \<Rightarrow> ParserState \<times> string" where
  \<comment> \<open>\<^verbatim>\<open>if (state.line[state.i] === "+" || state.line[state.i] === "-") str += state.line[state.i++]\<close>\<close>
  "take_sign st str =
     (if cur st = Some CHR ''+'' \<or> cur st = Some CHR ''-''
      then (advance st, append_char str (cur st)) else (st, str))"

function digits_dots_loop :: "ParserState \<Rightarrow> string \<Rightarrow> ParserState \<times> string" where
  "digits_dots_loop st str =
     (if st_i st < st_len st \<and> test_digit_dot (cur st)
      then digits_dots_loop (advance st) (append_char str (cur st)) else (st, str))"
  by pat_completeness auto
termination
  by (relation "measure (\<lambda>(st, str). st_len st - st_i st)") (auto simp: advance_def)

declare digits_dots_loop.simps [simp del]

function digits_loop :: "ParserState \<Rightarrow> string \<Rightarrow> ParserState \<times> string" where
  "digits_loop st str =
     (if st_i st < st_len st \<and> test_digit (cur st)
      then digits_loop (advance st) (append_char str (cur st)) else (st, str))"
  by pat_completeness auto
termination
  by (relation "measure (\<lambda>(st, str). st_len st - st_i st)") (auto simp: advance_def)

declare digits_loop.simps [simp del]

definition exponent_part :: "ParserState \<Rightarrow> string \<Rightarrow> ParserState \<times> string" where
  \<comment> \<open>the third statement of \<^verbatim>\<open>parseNumberField\<close>: an exponent marker, a sign, digits\<close>
  "exponent_part st str =
     (if st_i st < st_len st \<and> (cur st = Some CHR ''e'' \<or> cur st = Some CHR ''E'')
      then (case take_sign (advance st) (append_char str (cur st)) of
              (st', str') \<Rightarrow> digits_loop st' str')
      else (st, str))"

definition parseNumberField :: "ParserState \<Rightarrow> jsnum FieldNode option \<times> ParserState" where
  "parseNumberField st =
     (let start = st_i st
      in if st_i st \<ge> st_len st then (None, st)
         else
           (case take_sign st [] of (st1, str1) \<Rightarrow>
            case digits_dots_loop st1 str1 of (st2, str2) \<Rightarrow>
            case exponent_part st2 str2 of (st3, str3) \<Rightarrow>
              if str3 = [] then (None, st3)
              else (Some \<lparr>val = Some (js_Number str3),
                           pos = Some (makePos (st_lineNumber st3) start (st_i st3))\<rparr>, st3)))"

definition parseLiteralField :: "ParserState \<Rightarrow> string \<Rightarrow> string FieldNode option \<times> ParserState" where
  "parseLiteralField st literal =
     (let start = st_i st
      in if js_slice (st_line st) start (start + length literal) = literal
         then (let st' = st\<lparr>st_i := st_i st + length literal\<rparr>
               in (Some \<lparr>val = Some literal,
                          pos = Some (makePos (st_lineNumber st') start (st_i st'))\<rparr>, st'))
         else (None, st))"

function until_loop :: "string \<Rightarrow> ParserState \<Rightarrow> string \<Rightarrow> ParserState \<times> string" where
  "until_loop stopChars st v =
     (if st_i st < st_len st \<and> \<not> stop_includes stopChars (cur st)
      then until_loop stopChars (advance st) (append_char v (cur st)) else (st, v))"
  by pat_completeness auto
termination
  by (relation "measure (\<lambda>(stopChars, st, v). st_len st - st_i st)") (auto simp: advance_def)

declare until_loop.simps [simp del]

definition parseFieldUntil :: "ParserState \<Rightarrow> string \<Rightarrow> string FieldNode option \<times> ParserState" where
  "parseFieldUntil st stopChars =
     (let start = st_i st
      in case until_loop stopChars st [] of (st', v) \<Rightarrow>
           if v = [] then (None, st')
           else (Some \<lparr>val = Some v, pos = Some (makePos (st_lineNumber st') start (st_i st'))\<rparr>, st'))"

section \<open>The line parsers and the two dispatchers (strict/parser.ts)\<close>

definition parseCommentLine :: "string \<Rightarrow> nat \<Rightarrow> CommentNode" where
  "parseCommentLine l lineNumber =
     (case parseSpace (init_state l lineNumber) of (space0First, st1) \<Rightarrow>
      case parseLiteralField st1 ''#'' of (hash, st2) \<Rightarrow>
      case parseSpace st2 of (space0HashToComment, st3) \<Rightarrow>
      case parseFieldUntil st3 [CHR 0x0A] of (comment, st4) \<Rightarrow>
      case parseSpace st4 of (space0AfterComment, st5) \<Rightarrow>
        \<lparr>c_space0First = space0First, c_hash = hash,
         c_space0HashToComment = space0HashToComment, c_comment = comment,
         c_space0AfterComment = space0AfterComment\<rparr>)"

definition trim_field :: "string FieldNode option \<Rightarrow> string FieldNode option" where
  \<comment> \<open>\<^verbatim>\<open>if (field?.value) field.value = field.value.trim()\<close>\<close>
  "trim_field field =
     (case field of
        None \<Rightarrow> None
      | Some f \<Rightarrow>
          (case val f of
             None \<Rightarrow> Some f
           | Some v \<Rightarrow> if v \<noteq> [] then Some (f\<lparr>val := Some (js_trim v)\<rparr>) else Some f))"

definition parseTrackNameLine :: "string \<Rightarrow> nat \<Rightarrow> TrackNameNode" where
  "parseTrackNameLine l lineNumber =
     (case parseSpace (init_state l lineNumber) of (space0First, st1) \<Rightarrow>
      case parseLiteralField st1 ''trackName:'' of (literal, st2) \<Rightarrow>
      case parseSpace st2 of (space0LiteralToName, st3) \<Rightarrow>
      case parseFieldUntil st3 [CHR 0x0A] of (field, st4) \<Rightarrow>
      case parseSpace st4 of (space0AfterName, st5) \<Rightarrow>
        \<lparr>tn_space0First = space0First, tn_literal = literal,
         tn_space0LiteralToName = space0LiteralToName, tn_name = trim_field field,
         tn_space0AfterName = space0AfterName\<rparr>)"

definition parseTextLine :: "string \<Rightarrow> nat \<Rightarrow> TextNode" where
  "parseTextLine l lineNumber =
     (case parseSpace (init_state l lineNumber) of (space0First, st1) \<Rightarrow>
      case parseNumberField st1 of (time, st2) \<Rightarrow>
      case parseSpace st2 of (space1TimeToText, st3) \<Rightarrow>
      case parseFieldUntil st3 [CHR 0x0A] of (text, st4) \<Rightarrow>
      case parseSpace st4 of (space0AfterText, st5) \<Rightarrow>
        \<lparr>tx_space0First = space0First, tx_time = time,
         tx_space1TimeToText = space1TimeToText, tx_text = text,
         tx_space0AfterText = space0AfterText\<rparr>)"

definition parseAnimMotionLine :: "string \<Rightarrow> nat \<Rightarrow> MotionNode" where
  "parseAnimMotionLine l lineNumber =
     (case parseSpace (init_state l lineNumber) of (space0First, st1) \<Rightarrow>
      case parseNumberField st1 of (time, st2) \<Rightarrow>
      case parseSpace st2 of (space1TimeToEvent, st3) \<Rightarrow>
      case parseLiteralField st3 ''animmotion'' of (event, st4) \<Rightarrow>
      case parseSpace st4 of (space1EventToX, st5) \<Rightarrow>
      case parseNumberField st5 of (x, st6) \<Rightarrow>
      case parseSpace st6 of (space1XToY, st7) \<Rightarrow>
      case parseNumberField st7 of (y, st8) \<Rightarrow>
      case parseSpace st8 of (space1YToZ, st9) \<Rightarrow>
      case parseNumberField st9 of (z, st10) \<Rightarrow>
      case parseSpace st10 of (space0AfterZ, st11) \<Rightarrow>
        \<lparr>m_space0First = space0First, m_time = time,
         m_space1TimeToEvent = space1TimeToEvent, m_event = event,
         m_space1EventToX = space1EventToX, m_x = x,
         m_space1XToY = space1XToY, m_y = y,
         m_space1YToZ = space1YToZ, m_z = z,
         m_space0AfterZ = space0AfterZ\<rparr>)"

definition parseAnimRotationLine :: "string \<Rightarrow> nat \<Rightarrow> RotationNode" where
  "parseAnimRotationLine l lineNumber =
     (case parseSpace (init_state l lineNumber) of (space0First, st1) \<Rightarrow>
      case parseNumberField st1 of (time, st2) \<Rightarrow>
      case parseSpace st2 of (space1TimeToEvent, st3) \<Rightarrow>
      case parseLiteralField st3 ''animrotation'' of (event, st4) \<Rightarrow>
      case parseSpace st4 of (space1EventToDegrees, st5) \<Rightarrow>
      case parseNumberField st5 of (degrees, st6) \<Rightarrow>
      case parseSpace st6 of (space0AfterDegrees, st7) \<Rightarrow>
        \<lparr>r_space0First = space0First, r_time = time,
         r_space1TimeToEvent = space1TimeToEvent, r_event = event,
         r_space1EventToDegrees = space1EventToDegrees, r_degrees = degrees,
         r_space0AfterDegrees = space0AfterDegrees\<rparr>)"

text \<open>
  \<^verbatim>\<open>JSON.parse\<close> is a parameter \<open>JSON_parse\<close> of the model: it returns the decoded value
  (\<open>Inr\<close>) or throws a \<^verbatim>\<open>SyntaxError\<close> (\<open>Inl\<close>, with the error's message). The
  \<^verbatim>\<open>catch\<close> of \<^verbatim>\<open>tryParseJson\<close> turns the error into the text \<^verbatim>\<open>`${e}`\<close>, which is
  the error's name, and a colon, a space and the message if there is one.
\<close>

definition error_text :: "string \<Rightarrow> string" where
  "error_text msg = (if msg = [] then ''SyntaxError'' else ''SyntaxError: '' @ msg)"

definition tryParseJson :: "(string \<Rightarrow> string + Json) \<Rightarrow> string \<Rightarrow> string + Json" where
  \<comment> \<open>\<open>Inr data\<close> is \<^verbatim>\<open>{ success: true, data }\<close>, \<open>Inl error\<close> is
      \<^verbatim>\<open>{ success: false, error }\<close>\<close>
  "tryParseJson JSON_parse v =
     (case JSON_parse v of
        Inr json \<Rightarrow> Inr json
      | Inl msg \<Rightarrow> Inl (error_text msg))"

definition decode_json ::
  "(string \<Rightarrow> string + Json) \<Rightarrow> string FieldNode option
     \<Rightarrow> Json FieldNode option \<times> JsonParseError option" where
  \<comment> \<open>the \<^verbatim>\<open>if (typeof node.json?.value == "string")\<close> statement of \<^verbatim>\<open>parseIFrameLine\<close>:
      the json field after it, and \<^verbatim>\<open>node.jsonParseError\<close>\<close>
  "decode_json JSON_parse field =
     (case field of
        None \<Rightarrow> (None, None)
      | Some f \<Rightarrow>
          (case val f of
             None \<Rightarrow> (Some \<lparr>val = None, pos = pos f\<rparr>, None)
           | Some v \<Rightarrow>
               (case tryParseJson JSON_parse v of
                  Inr data \<Rightarrow> (Some \<lparr>val = Some data, pos = pos f\<rparr>, None)
                | Inl error \<Rightarrow>
                    (Some \<lparr>val = None, pos = pos f\<rparr>,
                     if error \<noteq> [] then Some \<lparr>message = error\<rparr> else None))))"

definition parseIFrameLine :: "(string \<Rightarrow> string + Json) \<Rightarrow> string \<Rightarrow> nat \<Rightarrow> IFrameNode" where
  "parseIFrameLine JSON_parse l lineNumber =
     (case parseSpace (init_state l lineNumber) of (space0First, st1) \<Rightarrow>
      case parseNumberField st1 of (time, st2) \<Rightarrow>
      case parseSpace st2 of (space1TimeToEvent, st3) \<Rightarrow>
      case parseLiteralField st3 ''SpecialFrames_Invincible'' of (event, st4) \<Rightarrow>
      case parseFieldUntil st4 [CHR 0x0A] of (raw, st5) \<Rightarrow>
      case decode_json JSON_parse raw of (json, jsonParseError) \<Rightarrow>
      case parseSpace st5 of (space0AfterJson, st6) \<Rightarrow>
        \<lparr>if_space0First = space0First, if_time = time,
         if_space1TimeToEvent = space1TimeToEvent, if_event = event,
         if_json = json, if_space0AfterJson = space0AfterJson,
         if_jsonParseError = jsonParseError\<rparr>)"

section \<open>The payload instruction parser (payload_interpreter/parser.ts)\<close>

definition one_char_field :: "ParserState \<Rightarrow> char \<Rightarrow> string FieldNode" where
  \<comment> \<open>\<^verbatim>\<open>{ value: ch, pos: makePos(state.lineNumber, state.i, state.i + 1) }\<close>\<close>
  "one_char_field st ch =
     \<lparr>val = Some [ch], pos = Some (makePos (st_lineNumber st) (st_i st) (st_i st + 1))\<rparr>"

definition param_item :: "ParserState \<Rightarrow> ParameterItemNode \<times> ParserState" where
  \<comment> \<open>the body of the parameter loop: a separator if one is next, then a value\<close>
  "param_item st =
     (case (if cur st = Some CHR ''|''
            then (Some (one_char_field st CHR ''|''), advance st) else (None, st)) of
        (sep, st1) \<Rightarrow>
      case parseFieldUntil st1 ''|'' of (valueField, st2) \<Rightarrow>
        (\<lparr>separator = sep, item_value = valueField\<rparr>, st2))"

function param_loop ::
  "ParserState \<Rightarrow> ParameterItemNode list \<Rightarrow> ParserState \<times> ParameterItemNode list" where
  "param_loop st its =
     (if st_i st < st_len st
      then (case param_item st of (item, st') \<Rightarrow> param_loop st' (its @ [item]))
      else (st, its))"
  by pat_completeness auto
termination
proof (relation "measure (\<lambda>(st, its). st_len st - st_i st)")
  show "wf (measure (\<lambda>(st, its). st_len st - st_i st))"
    by simp
next
  fix st :: ParserState and its :: "ParameterItemNode list" and item st'
  assume run: "st_i st < st_len st" and r: "(item, st') = param_item st"
  have len: "st_len (fst (until_loop s t v)) = st_len t" for s t v
    by (induction s t v rule: until_loop.induct)
       (subst until_loop.simps, simp add: advance_def)
  have mono: "st_i t \<le> st_i (fst (until_loop s t v))" for s t v
  proof (induction s t v rule: until_loop.induct)
    case (1 s t v)
    show ?case
    proof (cases "st_i t < st_len t \<and> \<not> stop_includes s (cur t)")
      case True
      with 1 have "st_i (advance t) \<le> st_i (fst (until_loop s (advance t) (append_char v (cur t))))"
        by simp
      with True show ?thesis
        by (subst until_loop.simps) (simp add: advance_def)
    next
      case False
      then show ?thesis
        by (subst until_loop.simps) auto
    qed
  qed
  have step: "st_i t < st_i (fst (until_loop s t v))"
    if "st_i t < st_len t" "\<not> stop_includes s (cur t)" for s t v
  proof -
    have "until_loop s t v = until_loop s (advance t) (append_char v (cur t))"
      using that by (subst until_loop.simps) simp
    moreover have "st_i (advance t) \<le> st_i (fst (until_loop s (advance t) (append_char v (cur t))))"
      by (rule mono)
    ultimately show ?thesis
      by (simp add: advance_def)
  qed
  have bar: "js_includes ''|'' [c] \<longleftrightarrow> c = CHR ''|''" for c
    by (auto simp: js_startsWith_def)
  have undef: "\<not> js_includes ''|'' ''undefined''"
    by (simp add: js_startsWith_def)
  have "st_len st' = st_len st \<and> st_i st < st_i st'"
  proof (cases "cur st = Some CHR ''|''")
    case True
    then have "st' = fst (until_loop ''|'' (advance st) [])"
      using r by (auto simp: param_item_def parseFieldUntil_def Let_def split: prod.splits if_splits)
    moreover have "st_i (advance st) \<le> st_i (fst (until_loop ''|'' (advance st) []))"
      by (rule mono)
    ultimately show ?thesis
      by (simp add: len advance_def)
  next
    case False
    then have st': "st' = fst (until_loop ''|'' st [])"
      using r by (auto simp: param_item_def parseFieldUntil_def Let_def split: prod.splits if_splits)
    have "\<not> stop_includes ''|'' (cur st)"
      using False bar undef by (cases "cur st") (auto simp: stop_includes_def)
    with run have "st_i st < st_i (fst (until_loop ''|'' st []))"
      by (rule step)
    with st' show ?thesis
      by (simp add: len)
  qed
  with run show "((st', its @ [item]), (st, its)) \<in> measure (\<lambda>(st, its). st_len st - st_i st)"
    by (simp add: diff_less_mono2)
qed

declare param_loop.simps [simp del]

definition parse_parameters :: "ParserState \<Rightarrow> ParametersNode option \<times> ParserState" where
  \<comment> \<open>the \<^verbatim>\<open>// --- Parse parameters\<close> statement\<close>
  "parse_parameters st =
     (if st_i st < st_len st \<and> cur st = Some CHR ''|''
      then (let paramStart = st_i st
            in case param_loop st [] of (st', its) \<Rightarrow>
                 (Some \<lparr>items = its,
                         params_pos = Some (makePos (st_lineNumber st') paramStart (st_i st'))\<rparr>, st'))
      else (None, st))"

definition parse_instruction :: "ParserState \<Rightarrow> InstructionNode option \<times> ParserState" where
  \<comment> \<open>the \<^verbatim>\<open>// --- Parse '@'\<close> statement\<close>
  "parse_instruction st =
     (case cur st of
        None \<Rightarrow> (None, st)
      | Some ch \<Rightarrow>
          if ch = CHR ''@'' \<or> ch = CHR ''$'' \<or> ch = CHR ''!''
          then (case parseFieldUntil (advance st) ''|'' of (nameField, st1) \<Rightarrow>
                case parse_parameters st1 of (parameters, st2) \<Rightarrow>
                  (Some \<lparr>in_prefix = Some (one_char_field st ch), in_name = nameField,
                          in_parameters = parameters\<rparr>, st2))
          else (None, st))"

definition parsePayloadInstructionLine :: "string \<Rightarrow> nat \<Rightarrow> PayloadInstructionNode" where
  "parsePayloadInstructionLine l lineNumber =
     (case parseSpace (init_state l lineNumber) of (space0First, st1) \<Rightarrow>
      case parseNumberField st1 of (time, st2) \<Rightarrow>
      case parseSpace st2 of (space1TimeToEvent, st3) \<Rightarrow>
      case parseFieldUntil st3 ''.'' of (eventField, st4) \<Rightarrow>
      case (if cur st4 = Some CHR ''.''
            then (Some (one_char_field st4 CHR ''.''), advance st4) else (None, st4)) of
        (dot, st5) \<Rightarrow>
      case parse_instruction st5 of (instruction, st6) \<Rightarrow>
        \<lparr>pi_space0First = space0First, pi_time = time,
         pi_space1TimeToEvent = space1TimeToEvent, pi_event = eventField,
         pi_dot = dot, pi_instruction = instruction\<rparr>)"

subsection \<open>Dispatch\<close>

definition commonParsers :: "((string \<Rightarrow> bool) \<times> (string \<Rightarrow> nat \<Rightarrow> HkannoNode)) list" where
  "commonParsers =
     [(\<lambda>l. js_startsWith (js_trimStart l) ''#'', \<lambda>l n. Comment (parseCommentLine l n)),
      (\<lambda>l. js_startsWith (js_toLowerCase (js_trimStart l)) ''trackname:'',
       \<lambda>l n. TrackName (parseTrackNameLine l n)),
      (\<lambda>l. js_includes (js_toLowerCase l) ''animrotation'',
       \<lambda>l n. Rotation (parseAnimRotationLine l n)),
      (\<lambda>l. js_includes (js_toLowerCase l) ''animmotion'',
       \<lambda>l n. Motion (parseAnimMotionLine l n))]"

definition extParser ::
  "(string \<Rightarrow> string + Json) \<Rightarrow> ((string \<Rightarrow> bool) \<times> (string \<Rightarrow> nat \<Rightarrow> HkannoNodeExt)) list" where
  "extParser JSON_parse =
     [(\<lambda>l. js_includes (js_toLowerCase l) ''specialframes_invincible'',
       \<lambda>l n. IFrame (parseIFrameLine JSON_parse l n)),
      (\<lambda>l. js_includes (js_toLowerCase l) ''pie'',
       \<lambda>l n. PayloadInstruction (parsePayloadInstructionLine l n))]"

fun first_match :: "((string \<Rightarrow> bool) \<times> (string \<Rightarrow> nat \<Rightarrow> 'n)) list \<Rightarrow> string \<Rightarrow> nat \<Rightarrow> 'n option" where
  \<comment> \<open>\<^verbatim>\<open>for (const { check, parser } of parsers) if (check(line)) return parser(line, lineNumber)\<close>;
      \<open>None\<close> when the loop ends without a return\<close>
  "first_match [] l n = None"
| "first_match ((check, parser) # ps) l n = (if check l then Some (parser l n) else first_match ps l n)"

definition parseHkannoLineExt :: "(string \<Rightarrow> string + Json) \<Rightarrow> string \<Rightarrow> nat \<Rightarrow> HkannoNodeExt" where
  "parseHkannoLineExt JSON_parse l lineNumber =
     (let parsers = extParser JSON_parse @ map (\<lambda>(check, parser). (check, \<lambda>l n. Common (parser l n))) commonParsers
      in case first_match parsers l lineNumber of
           Some node \<Rightarrow> node
         | None \<Rightarrow> Common (Text (parseTextLine l lineNumber)))"

definition parseHkannoLine :: "string \<Rightarrow> nat \<Rightarrow> HkannoNode" where
  "parseHkannoLine l lineNumber =
     (case first_match commonParsers l lineNumber of
        Some node \<Rightarrow> node
      | None \<Rightarrow> Text (parseTextLine l lineNumber))"

section \<open>The formatter (providers/formatter.ts)\<close>

datatype fvalue = Str string | Num jsnum

definition field_val :: "'a FieldNode option \<Rightarrow> 'a option" where
  \<comment> \<open>\<^verbatim>\<open>node.field?.value\<close>\<close>
  "field_val f = (case f of None \<Rightarrow> None | Some x \<Rightarrow> val x)"

definition formatValue :: "fvalue option \<Rightarrow> string" where
  "formatValue v = (case v of Some (Num n) \<Rightarrow> js_toFixed6 n | Some (Str s) \<Rightarrow> s | None \<Rightarrow> [])"

definition joinSpace1 :: "fvalue option list \<Rightarrow> string" where
  "joinSpace1 values = js_join_sp (map formatValue (filter (\<lambda>v. v \<noteq> None) values))"

fun formatNode :: "HkannoNode \<Rightarrow> string" where
  "formatNode (Rotation node) =
     joinSpace1 [map_option Num (field_val (r_time node)), map_option Str (field_val (r_event node)),
                 map_option Num (field_val (r_degrees node))]"
| "formatNode (Motion node) =
     joinSpace1 [map_option Num (field_val (m_time node)), map_option Str (field_val (m_event node)),
                 map_option Num (field_val (m_x node)), map_option Num (field_val (m_y node)),
                 map_option Num (field_val (m_z node))]"
| "formatNode (Text node) =
     joinSpace1 [map_option Num (field_val (tx_time node)), map_option Str (field_val (tx_text node))]"
| "formatNode (TrackName node) =
     ''trackName: '' @ (case field_val (tn_name node) of None \<Rightarrow> [] | Some v \<Rightarrow> js_trim v)"
| "formatNode (Comment node) =
     joinSpace1 [Some (Str ''#''), map_option Str (field_val (c_comment node))]"

fun format_lines :: "string list \<Rightarrow> nat \<Rightarrow> string list" where
  \<comment> \<open>the loop of \<^verbatim>\<open>formatHkannoText\<close> from index \<open>i\<close> on: the formatted lines pushed\<close>
  "format_lines [] i = []"
| "format_lines (l # ls) i = formatNode (parseHkannoLine l (i + 1)) # format_lines ls (i + 1)"

definition formatHkannoText :: "string \<Rightarrow> string" where
  "formatHkannoText text = js_join_nl (format_lines (js_split_nl text) 0)"

section \<open>Definitions for the proofs\<close>

text \<open>
  None of the definitions of this section is code of the repository. They name the
  states a parse call goes through (\<open>state_at\<close>), the text each primitive takes from a
  position of the line, the token it builds, and the properties the claims speak of.
\<close>

definition state_at :: "string \<Rightarrow> nat \<Rightarrow> nat \<Rightarrow> ParserState" where
  "state_at l n i = \<lparr>st_line = l, st_i = i, st_lineNumber = n, st_len = length l\<rparr>"

definition is_digit_dot :: "char \<Rightarrow> bool" where
  "is_digit_dot c = (is_digit c \<or> c = CHR ''.'')"

definition sign_prefix :: "string \<Rightarrow> string" where
  "sign_prefix r = (case r of [] \<Rightarrow> [] | c # cs \<Rightarrow> if c = CHR ''+'' \<or> c = CHR ''-'' then [c] else [])"

definition exp_prefix :: "string \<Rightarrow> string" where
  "exp_prefix r =
     (case r of
        [] \<Rightarrow> []
      | c # cs \<Rightarrow>
          if c = CHR ''e'' \<or> c = CHR ''E''
          then c # sign_prefix cs @ takeWhile is_digit (drop (length (sign_prefix cs)) cs)
          else [])"

definition num_prefix :: "string \<Rightarrow> string" where
  "num_prefix r =
     (let s = sign_prefix r;
          d = takeWhile is_digit_dot (drop (length s) r)
      in s @ d @ exp_prefix (drop (length s + length d) r))"

definition sp_end :: "string \<Rightarrow> nat \<Rightarrow> nat" where
  "sp_end l i = i + length (takeWhile is_space (drop i l))"

definition num_end :: "string \<Rightarrow> nat \<Rightarrow> nat" where
  "num_end l i = i + length (num_prefix (drop i l))"

definition lit_end :: "string \<Rightarrow> string \<Rightarrow> nat \<Rightarrow> nat" where
  "lit_end lit l i = (if take (length lit) (drop i l) = lit then i + length lit else i)"

definition until_end :: "string \<Rightarrow> string \<Rightarrow> nat \<Rightarrow> nat" where
  "until_end s l i = i + length (takeWhile (\<lambda>c. c \<notin> set s) (drop i l))"

definition space_tok :: "string \<Rightarrow> nat \<Rightarrow> nat \<Rightarrow> nat \<Rightarrow> SpaceNode option" where
  "space_tok l n i j =
     (if j = i then None else Some \<lparr>rawText = js_slice l i j, space_pos = makePos n i j\<rparr>)"

definition num_tok :: "string \<Rightarrow> nat \<Rightarrow> nat \<Rightarrow> nat \<Rightarrow> jsnum FieldNode option" where
  "num_tok l n i j =
     (if j = i then None
      else Some \<lparr>val = Some (js_Number (js_slice l i j)), pos = Some (makePos n i j)\<rparr>)"

definition str_tok :: "string \<Rightarrow> nat \<Rightarrow> nat \<Rightarrow> nat \<Rightarrow> string FieldNode option" where
  "str_tok l n i j =
     (if j = i then None else Some \<lparr>val = Some (js_slice l i j), pos = Some (makePos n i j)\<rparr>)"

definition is_fixed6 :: "string \<Rightarrow> bool" where
  "is_fixed6 s =
     (let t = (case s of [] \<Rightarrow> [] | c # cs \<Rightarrow> if c = CHR ''-'' then cs else s);
          ip = takeWhile is_digit t;
          r = dropWhile is_digit t
      in ip \<noteq> [] \<and> (case r of [] \<Rightarrow> False | c # fp \<Rightarrow> c = CHR ''.'' \<and> length fp = 6 \<and> list_all is_digit fp))"

definition v_number :: "string \<Rightarrow> jsnum option" where
  "v_number r = (if num_prefix r = [] then None else Some (js_Number (num_prefix r)))"

definition r_number :: "string \<Rightarrow> string" where
  "r_number r = drop (length (num_prefix r)) r"

definition r_space :: "string \<Rightarrow> string" where
  "r_space r = dropWhile is_space r"

definition v_literal :: "string \<Rightarrow> string \<Rightarrow> string option" where
  "v_literal lit r = (if take (length lit) r = lit then Some lit else None)"

definition r_literal :: "string \<Rightarrow> string \<Rightarrow> string" where
  "r_literal lit r = (if take (length lit) r = lit then drop (length lit) r else r)"

definition v_until :: "string \<Rightarrow> string \<Rightarrow> string option" where
  "v_until s r =
     (if takeWhile (\<lambda>c. c \<notin> set s) r = [] then None else Some (takeWhile (\<lambda>c. c \<notin> set s) r))"

definition fmt_rotation :: "string \<Rightarrow> string" where
  "fmt_rotation l =
     (let r0 = r_space l;
          r1 = r_space (r_number r0);
          r2 = r_space (r_literal ''animrotation'' r1)
      in joinSpace1 [map_option Num (v_number r0), map_option Str (v_literal ''animrotation'' r1),
                     map_option Num (v_number r2)])"

definition fmt_motion :: "string \<Rightarrow> string" where
  "fmt_motion l =
     (let r0 = r_space l;
          r1 = r_space (r_number r0);
          r2 = r_space (r_literal ''animmotion'' r1);
          r3 = r_space (r_number r2);
          r4 = r_space (r_number r3)
      in joinSpace1 [map_option Num (v_number r0), map_option Str (v_literal ''animmotion'' r1),
                     map_option Num (v_number r2), map_option Num (v_number r3),
                     map_option Num (v_number r4)])"

definition fmt_text :: "string \<Rightarrow> string" where
  "fmt_text l =
     (let r0 = r_space l;
          r1 = r_space (r_number r0)
      in joinSpace1 [map_option Num (v_number r0), map_option Str (v_until [CHR 0x0A] r1)])"

definition fmt_comment :: "string \<Rightarrow> string" where
  "fmt_comment l =
     joinSpace1 [Some (Str ''#''),
                 map_option Str (v_until [CHR 0x0A] (r_space (r_literal ''#'' (r_space l))))]"

definition fmt_trackName :: "string \<Rightarrow> string" where
  "fmt_trackName l =
     ''trackName: '' @
     (case v_until [CHR 0x0A] (r_space (r_literal ''trackName:'' (r_space l))) of
        None \<Rightarrow> [] | Some v \<Rightarrow> js_trim v)"

definition fmt_line :: "string \<Rightarrow> string" where
  "fmt_line l =
     (if js_startsWith (js_trimStart l) ''#'' then fmt_comment l
      else if js_startsWith (js_toLowerCase (js_trimStart l)) ''trackname:'' then fmt_trackName l
      else if js_includes (js_toLowerCase l) ''animrotation'' then fmt_rotation l
      else if js_includes (js_toLowerCase l) ''animmotion'' then fmt_motion l
      else fmt_text l)"

definition num_char :: "char \<Rightarrow> bool" where
  "num_char c = (is_digit c \<or> c \<in> set ''.-+eNaInfity'')"



definition sp :: "SpaceNode option \<Rightarrow> Pos option option" where
  "sp s = map_option (\<lambda>x. Some (space_pos x)) s"

definition fp :: "'a FieldNode option \<Rightarrow> Pos option option" where
  "fp f = map_option pos f"

fun tiles :: "nat \<Rightarrow> nat \<Rightarrow> Pos option option list \<Rightarrow> nat \<Rightarrow> bool" where
  "tiles n c [] e = (c = e)"
| "tiles n c (None # ps) e = tiles n c ps e"
| "tiles n c (Some None # ps) e = False"
| "tiles n c (Some (Some p) # ps) e =
     (line p = n \<and> startColumn p = c \<and> c < endColumn p \<and> tiles n (endColumn p) ps e)"

definition item_spans :: "ParameterItemNode \<Rightarrow> Pos option option list" where
  "item_spans it = [fp (separator it), fp (item_value it)]"

definition instruction_spans :: "InstructionNode option \<Rightarrow> Pos option option list" where
  "instruction_spans ins =
     (case ins of
        None \<Rightarrow> []
      | Some x \<Rightarrow>
          [fp (in_prefix x), fp (in_name x)] @
          (case in_parameters x of None \<Rightarrow> [] | Some ps \<Rightarrow> concat (map item_spans (items ps))))"

fun node_spans :: "HkannoNode \<Rightarrow> Pos option option list" where
  "node_spans (Rotation x) =
     [sp (r_space0First x), fp (r_time x), sp (r_space1TimeToEvent x), fp (r_event x),
      sp (r_space1EventToDegrees x), fp (r_degrees x), sp (r_space0AfterDegrees x)]"
| "node_spans (Motion x) =
     [sp (m_space0First x), fp (m_time x), sp (m_space1TimeToEvent x), fp (m_event x),
      sp (m_space1EventToX x), fp (m_x x), sp (m_space1XToY x), fp (m_y x),
      sp (m_space1YToZ x), fp (m_z x), sp (m_space0AfterZ x)]"
| "node_spans (Text x) =
     [sp (tx_space0First x), fp (tx_time x), sp (tx_space1TimeToText x), fp (tx_text x),
      sp (tx_space0AfterText x)]"
| "node_spans (Comment x) =
     [sp (c_space0First x), fp (c_hash x), sp (c_space0HashToComment x), fp (c_comment x),
      sp (c_space0AfterComment x)]"
| "node_spans (TrackName x) =
     [sp (tn_space0First x), fp (tn_literal x), sp (tn_space0LiteralToName x), fp (tn_name x),
      sp (tn_space0AfterName x)]"

fun node_spans_ext :: "HkannoNodeExt \<Rightarrow> Pos option option list" where
  "node_spans_ext (Common x) = node_spans x"
| "node_spans_ext (IFrame x) =
     [sp (if_space0First x), fp (if_time x), sp (if_space1TimeToEvent x), fp (if_event x),
      fp (if_json x), sp (if_space0AfterJson x)]"
| "node_spans_ext (PayloadInstruction x) =
     [sp (pi_space0First x), fp (pi_time x), sp (pi_space1TimeToEvent x), fp (pi_event x),
      fp (pi_dot x)] @ instruction_spans (pi_instruction x)"

definition well_formed :: "string \<Rightarrow> nat \<Rightarrow> Pos option option list \<Rightarrow> bool" where
  "well_formed l n ps =
     (\<forall>t \<in> set ps.
        case t of
          None \<Rightarrow> True
        | Some None \<Rightarrow> False
        | Some (Some p) \<Rightarrow>
            line p = n \<and> 1 \<le> startColumn p \<and> startColumn p < endColumn p \<and>
            endColumn p \<le> length l + 1)"

definition spans_chars :: "nat \<Rightarrow> nat \<Rightarrow> nat \<Rightarrow> Pos \<Rightarrow> bool" where
  \<comment> \<open>\<open>p\<close> is the span, on line \<open>n\<close>, of the characters from offset \<open>i\<close> up to offset \<open>j\<close>\<close>
  "spans_chars n i j p =
     (line p = n \<and> startColumn p = i + 1 \<and> endColumn p = j + 1 \<and> endColumn p - startColumn p = j - i)"

definition stable_number :: "jsnum \<Rightarrow> bool" where
  "stable_number v =
     (case v of
        Fin m e \<Rightarrow> below_1e21 (nat \<bar>m\<bar>) e \<and> js_toFixed6 (js_Number (js_toFixed6 v)) = js_toFixed6 v
      | _ \<Rightarrow> False)"

definition numeral_str :: "string \<Rightarrow> bool" where
  "numeral_str N =
     (\<exists>sg a b. N = sg @ a @ CHR ''.'' # b \<and> (sg = [] \<or> sg = ''-'') \<and> a \<noteq> [] \<and>
               list_all is_digit a \<and> list_all is_digit b)"

definition num_start :: "char \<Rightarrow> bool" where
  "num_start c = (c = CHR ''+'' \<or> c = CHR ''-'' \<or> is_digit c \<or> c = CHR ''.'' \<or> c = CHR ''e'' \<or> c = CHR ''E'')"

definition good :: "string \<Rightarrow> bool" where
  "good N = (numeral_str N \<and> js_toFixed6 (js_Number N) = N)"

section \<open>What each primitive takes and returns\<close>

lemma state_at_simps [simp]:
  "st_line (state_at l n i) = l" "st_i (state_at l n i) = i" "st_lineNumber (state_at l n i) = n" "st_len (state_at l n i) = length l"
  by (simp_all add: state_at_def)

lemma advance_state_at [simp]: "advance (state_at l n i) = state_at l n (Suc i)"
  by (simp add: advance_def state_at_def)

lemma init_state_eq: "init_state l n = state_at l n 0"
  by (simp add: init_state_def state_at_def)

lemma cur_at: "cur (state_at l n i) = (if i < length l then Some (l ! i) else None)"
  by (simp add: cur_def char_at_def)

lemma drop_step: "i < length l \<Longrightarrow> drop i l = l ! i # drop (Suc i) l"
  by (simp add: Cons_nth_drop_Suc)

lemma parseSpace_loop_at:
  "parseSpace_loop (state_at l n i) = state_at l n (i + length (takeWhile is_space (drop i l)))"
proof (induction "length l - i" arbitrary: i)
  case 0
  then show ?case
    by (subst parseSpace_loop.simps) simp
next
  case (Suc k)
  then have lt: "i < length l" by simp
  show ?case
  proof (cases "is_space (l ! i)")
    case True
    have "parseSpace_loop (state_at l n i) = parseSpace_loop (state_at l n (Suc i))"
      using lt True by (subst parseSpace_loop.simps) (simp add: cur_at test_space_def)
    also have "\<dots> = state_at l n (Suc i + length (takeWhile is_space (drop (Suc i) l)))"
      using Suc by simp
    finally show ?thesis
      using lt True by (simp add: drop_step)
  next
    case False
    then show ?thesis
      using lt by (subst parseSpace_loop.simps) (simp add: cur_at test_space_def drop_step)
  qed
qed

lemma acc_loop_generic:
  assumes step: "\<And>i acc. f (state_at l n i) acc = (if i < length l \<and> P (l ! i) then f (state_at l n (Suc i)) (acc @ [l ! i]) else (state_at l n i, acc))"
  shows "f (state_at l n i) acc = (state_at l n (i + length (takeWhile P (drop i l))), acc @ takeWhile P (drop i l))"
proof (induction "length l - i" arbitrary: i acc)
  case 0
  then show ?case
    by (subst step) simp
next
  case (Suc k)
  then have lt: "i < length l" by simp
  show ?case
  proof (cases "P (l ! i)")
    case True
    have "f (state_at l n i) acc = f (state_at l n (Suc i)) (acc @ [l ! i])"
      using lt True by (subst step) simp
    also have "\<dots> = (state_at l n (Suc i + length (takeWhile P (drop (Suc i) l))), (acc @ [l ! i]) @ takeWhile P (drop (Suc i) l))"
      using Suc by simp
    finally show ?thesis
      using lt True by (simp add: drop_step)
  next
    case False
    then show ?thesis
      using lt by (subst step) (simp add: drop_step)
  qed
qed

lemma digits_dots_loop_at:
  "digits_dots_loop (state_at l n i) acc =
     (state_at l n (i + length (takeWhile is_digit_dot (drop i l))),
      acc @ takeWhile is_digit_dot (drop i l))"
  by (rule acc_loop_generic, subst digits_dots_loop.simps)
     (auto simp: cur_at test_digit_dot_def append_char_def is_digit_dot_def)

lemma digits_loop_at:
  "digits_loop (state_at l n i) acc =
     (state_at l n (i + length (takeWhile is_digit (drop i l))), acc @ takeWhile is_digit (drop i l))"
  by (rule acc_loop_generic, subst digits_loop.simps)
     (auto simp: cur_at test_digit_def append_char_def)

lemma js_includes_single: "js_includes s [c] \<longleftrightarrow> c \<in> set s"
  by (induction s) (auto simp: js_startsWith_def)

lemma until_loop_at:
  "until_loop s (state_at l n i) acc =
     (state_at l n (i + length (takeWhile (\<lambda>c. c \<notin> set s) (drop i l))),
      acc @ takeWhile (\<lambda>c. c \<notin> set s) (drop i l))"
  by (rule acc_loop_generic, subst until_loop.simps)
     (auto simp: cur_at stop_includes_def append_char_def js_includes_single)

lemma take_sign_at:
  "take_sign (state_at l n i) acc =
     (state_at l n (i + length (sign_prefix (drop i l))), acc @ sign_prefix (drop i l))"
proof (cases "i < length l")
  case True
  then show ?thesis
    by (auto simp: take_sign_def cur_at sign_prefix_def drop_step append_char_def)
next
  case False
  then show ?thesis
    by (simp add: take_sign_def cur_at sign_prefix_def)
qed

lemma exponent_part_at:
  "exponent_part (state_at l n i) acc =
     (state_at l n (i + length (exp_prefix (drop i l))), acc @ exp_prefix (drop i l))"
proof (cases "i < length l")
  case True
  then show ?thesis
    by (auto simp: exponent_part_def cur_at exp_prefix_def drop_step append_char_def
          take_sign_at digits_loop_at add_ac)
next
  case False
  then show ?thesis
    by (simp add: exponent_part_def exp_prefix_def)
qed

lemma parseNumberField_at:
  "parseNumberField (state_at l n i) =
     (let w = num_prefix (drop i l)
      in (if w = [] then None
          else Some \<lparr>val = Some (js_Number w), pos = Some (makePos n i (i + length w))\<rparr>,
          state_at l n (i + length w)))"
proof (cases "i < length l")
  case True
  define s where "s = sign_prefix (drop i l)"
  define d where "d = takeWhile is_digit_dot (drop (i + length s) l)"
  define x where "x = exp_prefix (drop (i + length s + length d) l)"
  have 1: "take_sign (state_at l n i) [] = (state_at l n (i + length s), s)"
    by (simp add: take_sign_at s_def)
  have 2: "digits_dots_loop (state_at l n (i + length s)) s = (state_at l n (i + length s + length d), s @ d)"
    by (simp add: digits_dots_loop_at d_def)
  have 3: "exponent_part (state_at l n (i + length s + length d)) (s @ d)
           = (state_at l n (i + length s + length d + length x), s @ d @ x)"
    by (simp add: exponent_part_at x_def)
  have w: "num_prefix (drop i l) = s @ d @ x"
    by (simp add: num_prefix_def Let_def s_def d_def x_def add_ac)
  have "parseNumberField (state_at l n i) =
          (if s @ d @ x = [] then (None, state_at l n (i + length s + length d + length x))
           else (Some \<lparr>val = Some (js_Number (s @ d @ x)),
                        pos = Some (makePos n i (i + length s + length d + length x))\<rparr>,
                 state_at l n (i + length s + length d + length x)))"
    using True by (simp add: parseNumberField_def 1 2 3 del: append_is_Nil_conv)
  then show ?thesis
    by (simp add: w Let_def add.assoc del: append_is_Nil_conv)
next
  case False
  then show ?thesis
    by (simp add: parseNumberField_def num_prefix_def sign_prefix_def exp_prefix_def)
qed

lemma parseSpace_at:
  "parseSpace (state_at l n i) =
     (let w = takeWhile is_space (drop i l)
      in (if w = [] then None else Some \<lparr>rawText = w, space_pos = makePos n i (i + length w)\<rparr>,
          state_at l n (i + length w)))"
  by (simp add: parseSpace_def parseSpace_loop_at Let_def js_slice_def takeWhile_eq_take [symmetric])

lemma parseLiteralField_at:
  "parseLiteralField (state_at l n i) lit =
     (if take (length lit) (drop i l) = lit
      then (Some \<lparr>val = Some lit, pos = Some (makePos n i (i + length lit))\<rparr>,
            state_at l n (i + length lit))
      else (None, state_at l n i))"
  by (simp add: parseLiteralField_def Let_def js_slice_def state_at_def)

lemma parseFieldUntil_at:
  "parseFieldUntil (state_at l n i) s =
     (let w = takeWhile (\<lambda>c. c \<notin> set s) (drop i l)
      in (if w = [] then None else Some \<lparr>val = Some w, pos = Some (makePos n i (i + length w))\<rparr>,
          state_at l n (i + length w)))"
  by (simp add: parseFieldUntil_def until_loop_at Let_def)

lemma slice_prefix: "take k (drop i l) = w \<Longrightarrow> length w = k \<Longrightarrow> js_slice l i (i + k) = w"
  by (simp add: js_slice_def)

lemma num_prefix_is_prefix: "take (length (num_prefix r)) r = num_prefix r"
proof -
  define s where "s = sign_prefix r"
  define d where "d = takeWhile is_digit_dot (drop (length s) r)"
  define x where "x = exp_prefix (drop (length s + length d) r)"
  have s: "take (length s) r = s"
    by (cases r) (auto simp: s_def sign_prefix_def)
  have d: "take (length d) (drop (length s) r) = d"
    by (simp add: d_def takeWhile_eq_take [symmetric])
  have sg: "take (length (sign_prefix t)) t = sign_prefix t" for t
    by (cases t) (auto simp: sign_prefix_def)
  have ex: "take (length (exp_prefix t)) t = exp_prefix t" for t
  proof (cases t)
    case Nil
    then show ?thesis by (simp add: exp_prefix_def)
  next
    case (Cons c cs)
    have "take (length (sign_prefix cs) + length (takeWhile is_digit (drop (length (sign_prefix cs)) cs))) cs
          = sign_prefix cs @ takeWhile is_digit (drop (length (sign_prefix cs)) cs)"
      by (simp add: take_add sg takeWhile_eq_take [symmetric])
    with Cons show ?thesis
      by (simp add: exp_prefix_def)
  qed
  have x: "take (length x) (drop (length d) (drop (length s) r)) = x"
    using ex [of "drop (length s + length d) r"] by (simp add: x_def add.commute)
  have "take (length s + (length d + length x)) r
        = take (length s) r @ take (length d + length x) (drop (length s) r)"
    by (rule take_add)
  also have "take (length d + length x) (drop (length s) r)
        = take (length d) (drop (length s) r) @ take (length x) (drop (length d) (drop (length s) r))"
    by (rule take_add)
  finally have "take (length s + (length d + length x)) r = s @ d @ x"
    by (simp only: s d x)
  moreover have "num_prefix r = s @ d @ x"
    by (simp add: num_prefix_def Let_def s_def d_def x_def)
  ultimately show ?thesis
    by simp
qed

lemma parseSpace_eq:
  "parseSpace (state_at l n i) = (space_tok l n i (sp_end l i), state_at l n (sp_end l i))"
  by (simp add: parseSpace_at Let_def space_tok_def sp_end_def slice_prefix takeWhile_eq_take [symmetric])

lemma parseNumberField_eq:
  "parseNumberField (state_at l n i) = (num_tok l n i (num_end l i), state_at l n (num_end l i))"
  by (simp add: parseNumberField_at Let_def num_tok_def num_end_def slice_prefix num_prefix_is_prefix)

lemma parseLiteralField_eq:
  "lit \<noteq> [] \<Longrightarrow>
   parseLiteralField (state_at l n i) lit = (str_tok l n i (lit_end lit l i), state_at l n (lit_end lit l i))"
  by (auto simp: parseLiteralField_at str_tok_def lit_end_def slice_prefix)

lemma parseFieldUntil_eq:
  "parseFieldUntil (state_at l n i) s = (str_tok l n i (until_end s l i), state_at l n (until_end s l i))"
  by (simp add: parseFieldUntil_at Let_def str_tok_def until_end_def slice_prefix takeWhile_eq_take [symmetric])

lemmas prim_eq = init_state_eq parseSpace_eq parseNumberField_eq parseLiteralField_eq parseFieldUntil_eq

lemma parseAnimRotationLine_eq:
  "parseAnimRotationLine l n =
     (let i1 = sp_end l 0; i2 = num_end l i1; i3 = sp_end l i2; i4 = lit_end ''animrotation'' l i3;
          i5 = sp_end l i4; i6 = num_end l i5; i7 = sp_end l i6
      in \<lparr>r_space0First = space_tok l n 0 i1, r_time = num_tok l n i1 i2,
          r_space1TimeToEvent = space_tok l n i2 i3, r_event = str_tok l n i3 i4,
          r_space1EventToDegrees = space_tok l n i4 i5, r_degrees = num_tok l n i5 i6,
          r_space0AfterDegrees = space_tok l n i6 i7\<rparr>)"
  by (simp add: parseAnimRotationLine_def prim_eq Let_def)

lemma parseAnimMotionLine_eq:
  "parseAnimMotionLine l n =
     (let i1 = sp_end l 0; i2 = num_end l i1; i3 = sp_end l i2; i4 = lit_end ''animmotion'' l i3;
          i5 = sp_end l i4; i6 = num_end l i5; i7 = sp_end l i6; i8 = num_end l i7;
          i9 = sp_end l i8; i10 = num_end l i9; i11 = sp_end l i10
      in \<lparr>m_space0First = space_tok l n 0 i1, m_time = num_tok l n i1 i2,
          m_space1TimeToEvent = space_tok l n i2 i3, m_event = str_tok l n i3 i4,
          m_space1EventToX = space_tok l n i4 i5, m_x = num_tok l n i5 i6,
          m_space1XToY = space_tok l n i6 i7, m_y = num_tok l n i7 i8,
          m_space1YToZ = space_tok l n i8 i9, m_z = num_tok l n i9 i10,
          m_space0AfterZ = space_tok l n i10 i11\<rparr>)"
  by (simp add: parseAnimMotionLine_def prim_eq Let_def)

lemma state_at_conv: "st_len st = length (st_line st) \<Longrightarrow> st = state_at (st_line st) (st_lineNumber st) (st_i st)"
  by (simp add: state_at_def)

lemma state_at_upd [simp]: "(state_at l n i)\<lparr>st_i := j\<rparr> = state_at l n j"
  by (simp add: state_at_def)

lemma sp_end_bounds: "i \<le> sp_end l i" "i \<le> length l \<Longrightarrow> sp_end l i \<le> length l"
proof -
  show "i \<le> sp_end l i" by (simp add: sp_end_def)
  assume "i \<le> length l"
  moreover have "length (takeWhile is_space (drop i l)) \<le> length (drop i l)"
    by (rule length_takeWhile_le)
  ultimately show "sp_end l i \<le> length l" by (simp add: sp_end_def)
qed

lemma until_end_bounds: "i \<le> until_end s l i" "i \<le> length l \<Longrightarrow> until_end s l i \<le> length l"
proof -
  show "i \<le> until_end s l i" by (simp add: until_end_def)
  assume "i \<le> length l"
  moreover have "length (takeWhile (\<lambda>c. c \<notin> set s) (drop i l)) \<le> length (drop i l)"
    by (rule length_takeWhile_le)
  ultimately show "until_end s l i \<le> length l" by (simp add: until_end_def)
qed

lemma num_prefix_length_le: "length (num_prefix r) \<le> length r"
proof -
  have "length (take (length (num_prefix r)) r) \<le> length r"
    by simp
  then show ?thesis
    by (simp only: num_prefix_is_prefix)
qed

lemma num_end_bounds: "i \<le> num_end l i" "i \<le> length l \<Longrightarrow> num_end l i \<le> length l"
proof -
  show "i \<le> num_end l i" by (simp add: num_end_def)
  assume "i \<le> length l"
  moreover have "length (num_prefix (drop i l)) \<le> length (drop i l)"
    by (rule num_prefix_length_le)
  ultimately show "num_end l i \<le> length l" by (simp add: num_end_def)
qed

lemma lit_end_bounds: "i \<le> lit_end lit l i" "i \<le> length l \<Longrightarrow> lit_end lit l i \<le> length l"
proof -
  show "i \<le> lit_end lit l i" by (simp add: lit_end_def)
  assume i: "i \<le> length l"
  show "lit_end lit l i \<le> length l"
  proof (cases "take (length lit) (drop i l) = lit")
    case True
    then have "length lit = length (take (length lit) (drop i l))" by simp
    also have "\<dots> \<le> length l - i" by simp
    finally show ?thesis using i True by (simp add: lit_end_def)
  next
    case False
    then show ?thesis using i by (simp add: lit_end_def)
  qed
qed

lemma until_end_stop:
  "until_end s l i < length l \<Longrightarrow> l ! until_end s l i \<in> set s"
proof -
  assume lt: "until_end s l i < length l"
  let ?w = "takeWhile (\<lambda>c. c \<notin> set s) (drop i l)"
  have "length ?w < length (drop i l)"
    using lt by (simp add: until_end_def)
  then have "\<not> (drop i l ! length ?w \<notin> set s)"
    by (rule nth_length_takeWhile)
  moreover have "drop i l ! length ?w = l ! (i + length ?w)"
    using lt by (simp add: until_end_def)
  ultimately show ?thesis
    by (simp add: until_end_def)
qed

lemma until_end_step:
  "i < length l \<Longrightarrow> l ! i \<notin> set s \<Longrightarrow> i < until_end s l i"
  by (simp add: until_end_def drop_step)

lemma param_item_bar:
  "i < length l \<Longrightarrow> l ! i = CHR ''|'' \<Longrightarrow>
   param_item (state_at l n i) =
     (\<lparr>separator = Some \<lparr>val = Some ''|'', pos = Some (makePos n i (Suc i))\<rparr>,
       item_value = str_tok l n (Suc i) (until_end ''|'' l (Suc i))\<rparr>,
      state_at l n (until_end ''|'' l (Suc i)))"
  by (simp add: param_item_def cur_at one_char_field_def prim_eq)

lemma param_item_other:
  "i < length l \<Longrightarrow> l ! i \<noteq> CHR ''|'' \<Longrightarrow>
   param_item (state_at l n i) =
     (\<lparr>separator = None, item_value = str_tok l n i (until_end ''|'' l i)\<rparr>,
      state_at l n (until_end ''|'' l i))"
  by (simp add: param_item_def cur_at prim_eq)

lemma param_item_progress:
  assumes "i < length l"
  shows "\<exists>item j. param_item (state_at l n i) = (item, state_at l n j) \<and> i < j \<and> j \<le> length l
           \<and> (l ! i = CHR ''|'' \<longrightarrow> (\<exists>f. separator item = Some f \<and> val f = Some ''|''))
           \<and> (j < length l \<longrightarrow> l ! j = CHR ''|'')"
proof (cases "l ! i = CHR ''|''")
  case True
  have "Suc i \<le> until_end ''|'' l (Suc i)" by (rule until_end_bounds)
  moreover have "until_end ''|'' l (Suc i) \<le> length l"
    using assms by (intro until_end_bounds) simp
  moreover have "until_end ''|'' l (Suc i) < length l \<longrightarrow> l ! until_end ''|'' l (Suc i) = CHR ''|''"
    using until_end_stop [of "''|''" l "Suc i"] by simp
  ultimately show ?thesis
    using assms True
    by (intro exI [of _ "fst (param_item (state_at l n i))"] exI [of _ "until_end ''|'' l (Suc i)"])
       (simp add: param_item_bar)
next
  case False
  have "i < until_end ''|'' l i"
    using assms False by (intro until_end_step) simp_all
  moreover have "until_end ''|'' l i \<le> length l"
    using assms by (intro until_end_bounds) simp
  moreover have "until_end ''|'' l i < length l \<longrightarrow> l ! until_end ''|'' l i = CHR ''|''"
    using until_end_stop [of "''|''" l i] by simp
  ultimately show ?thesis
    using assms False
    by (intro exI [of _ "fst (param_item (state_at l n i))"] exI [of _ "until_end ''|'' l i"])
       (simp add: param_item_other)
qed

lemma param_loop_run:
  "i \<le> length l \<Longrightarrow>
   \<exists>new. param_loop (state_at l n i) its = (state_at l n (length l), its @ new)
        \<and> length new \<le> length l - i
        \<and> (i < length l \<longrightarrow> new \<noteq> [])
        \<and> ((i < length l \<longrightarrow> l ! i = CHR ''|'') \<longrightarrow> (\<forall>it \<in> set new. (\<exists>f. separator it = Some f \<and> val f = Some ''|'')))"
proof (induction "length l - i" arbitrary: i its rule: less_induct)
  case less
  show ?case
  proof (cases "i < length l")
    case False
    with less.prems have "i = length l" by simp
    then show ?thesis
      by (subst param_loop.simps) simp
  next
    case True
    from param_item_progress [OF True, of n]
    obtain item j where item: "param_item (state_at l n i) = (item, state_at l n j)"
      and ij: "i < j" and jl: "j \<le> length l"
      and sep: "l ! i = CHR ''|'' \<longrightarrow> (\<exists>f. separator item = Some f \<and> val f = Some ''|'')"
      and nxt: "j < length l \<longrightarrow> l ! j = CHR ''|''"
      by blast
    have "length l - j < length l - i"
      using True ij by simp
    from less.hyps [OF this jl, of "its @ [item]"]
    obtain new where run: "param_loop (state_at l n j) (its @ [item]) = (state_at l n (length l), (its @ [item]) @ new)"
      and len: "length new \<le> length l - j"
      and all: "(j < length l \<longrightarrow> l ! j = CHR ''|'') \<longrightarrow> (\<forall>it \<in> set new. (\<exists>f. separator it = Some f \<and> val f = Some ''|''))"
      by blast
    have "param_loop (state_at l n i) its = param_loop (state_at l n j) (its @ [item])"
      using True by (subst param_loop.simps) (simp add: item)
    then have "param_loop (state_at l n i) its = (state_at l n (length l), its @ (item # new))"
      using run by simp
    moreover have "length (item # new) \<le> length l - i"
      using len ij jl by simp
    moreover have "(i < length l \<longrightarrow> l ! i = CHR ''|'') \<longrightarrow> (\<forall>it \<in> set (item # new). (\<exists>f. separator it = Some f \<and> val f = Some ''|''))"
      using sep all nxt True by simp
    ultimately show ?thesis
      by blast
  qed
qed

lemma parse_parameters_items:
  assumes "i \<le> length l" and "parse_parameters (state_at l n i) = (Some ps, st')"
  shows "items ps \<noteq> [] \<and> (\<forall>it \<in> set (items ps). \<exists>f. separator it = Some f \<and> val f = Some ''|'')"
proof -
  from assms(2) have bar: "i < length l" "l ! i = CHR ''|''"
    by (auto simp: parse_parameters_def cur_at split: if_splits)
  from param_loop_run [OF assms(1), of n "[]"]
  obtain new where run0: "param_loop (state_at l n i) [] = (state_at l n (length l), [] @ new)"
    and ne0: "i < length l \<longrightarrow> new \<noteq> []"
    and all0: "(i < length l \<longrightarrow> l ! i = CHR ''|'') \<longrightarrow>
               (\<forall>it \<in> set new. \<exists>f. separator it = Some f \<and> val f = Some ''|'')"
    by blast
  from run0 have run: "param_loop (state_at l n i) [] = (state_at l n (length l), new)"
    by simp
  from ne0 bar have ne: "new \<noteq> []"
    by simp
  from all0 bar have all: "\<forall>it \<in> set new. \<exists>f. separator it = Some f \<and> val f = Some ''|''"
    by simp
  from assms(2) bar run have "items ps = new"
    by (auto simp: parse_parameters_def cur_at Let_def)
  with ne all show ?thesis
    by simp
qed

lemma parse_instruction_items:
  assumes "i \<le> length l" and "parse_instruction (state_at l n i) = (Some ins, st')"
    and "in_parameters ins = Some ps"
  shows "items ps \<noteq> [] \<and> (\<forall>it \<in> set (items ps). \<exists>f. separator it = Some f \<and> val f = Some ''|'')"
proof -
  from assms(2) have lt: "i < length l"
    by (auto simp: parse_instruction_def cur_at split: if_splits)
  let ?j = "until_end ''|'' l (Suc i)"
  have j: "?j \<le> length l"
    using lt by (intro until_end_bounds) simp
  from assms(2,3) lt obtain st1 where "parse_parameters (state_at l n ?j) = (Some ps, st1)"
    by (auto simp: parse_instruction_def cur_at prim_eq split: if_splits prod.splits)
  with j show ?thesis
    by (rule parse_parameters_items)
qed

lemma parsePayloadInstructionLine_eq:
  "parsePayloadInstructionLine l n =
     (let i1 = sp_end l 0; i2 = num_end l i1; i3 = sp_end l i2; i4 = until_end ''.'' l i3;
          dot = (i4 < length l \<and> l ! i4 = CHR ''.'');
          i5 = (if dot then Suc i4 else i4)
      in \<lparr>pi_space0First = space_tok l n 0 i1, pi_time = num_tok l n i1 i2,
          pi_space1TimeToEvent = space_tok l n i2 i3, pi_event = str_tok l n i3 i4,
          pi_dot = (if dot then Some \<lparr>val = Some ''.'', pos = Some (makePos n i4 (Suc i4))\<rparr> else None),
          pi_instruction = fst (parse_instruction (state_at l n i5))\<rparr>)"
  by (simp add: parsePayloadInstructionLine_def prim_eq Let_def cur_at one_char_field_def
        split: prod.splits)

lemma payload_cursor_bound:
  "(let i4 = until_end ''.'' l (sp_end l (num_end l (sp_end l 0)))
    in (if i4 < length l \<and> l ! i4 = CHR ''.'' then Suc i4 else i4)) \<le> length l"
proof -
  have "sp_end l 0 \<le> length l" by (intro sp_end_bounds) simp
  then have "num_end l (sp_end l 0) \<le> length l" by (intro num_end_bounds)
  then have "sp_end l (num_end l (sp_end l 0)) \<le> length l" by (intro sp_end_bounds)
  then have "until_end ''.'' l (sp_end l (num_end l (sp_end l 0))) \<le> length l"
    by (intro until_end_bounds)
  then show ?thesis
    by (simp add: Let_def)
qed

lemmas tok_eval = sp_end_def num_end_def lit_end_def until_end_def space_tok_def num_tok_def str_tok_def
  num_prefix_def sign_prefix_def exp_prefix_def is_space_def is_digit_def is_digit_dot_def makePos_def
  js_slice_def Let_def

lemma digit_char_is_digit: "d < 10 \<Longrightarrow> is_digit (digit_char d)"
proof -
  assume "d < 10"
  then have "d \<in> {0, 1, 2, 3, 4, 5, 6, 7, 8, 9}"
    by auto
  then show ?thesis
    by (auto simp: digit_char_def is_digit_def)
qed

lemma nat_to_dec_digits: "nat_to_dec n \<noteq> [] \<and> list_all is_digit (nat_to_dec n)"
proof (induction n rule: nat_to_dec.induct)
  case (1 n)
  show ?case
  proof (cases "n < 10")
    case True
    then show ?thesis
      by (subst (1 2) nat_to_dec.simps) (simp add: digit_char_is_digit)
  next
    case False
    with 1 have "list_all is_digit (nat_to_dec (n div 10))"
      by simp
    moreover have "is_digit (digit_char (n mod 10))"
      by (rule digit_char_is_digit) simp
    ultimately show ?thesis
      using False by (subst (1 2) nat_to_dec.simps) simp
  qed
qed

lemma not_digit_chars [simp]:
  "\<not> is_digit CHR ''.''" "\<not> is_digit CHR ''-''" "\<not> is_digit CHR '' ''" "\<not> is_digit CHR ''e''"
  "\<not> is_digit CHR ''+''" "\<not> is_digit CHR ''E''"
  by (simp_all add: is_digit_def)

lemma fixed6_digits_shape:
  "\<exists>a b. fixed6_digits x e = a @ CHR ''.'' # b \<and> a \<noteq> [] \<and> list_all is_digit a \<and> length b = 6 \<and> list_all is_digit b"
proof -
  define n where "n = (2 * x * 10 ^ 6 * 2 ^ nat e + 2 ^ nat (- e)) div (2 * 2 ^ nat (- e))"
  define ds where "ds = nat_to_dec n"
  define ds' where "ds' = (if length ds \<le> 6 then replicate (7 - length ds) CHR ''0'' @ ds else ds)"
  have ds: "list_all is_digit ds"
    using nat_to_dec_digits by (simp add: ds_def)
  have zero: "is_digit CHR ''0''"
    by (simp add: is_digit_def)
  have ds': "list_all is_digit ds'" "7 \<le> length ds'"
    using ds zero by (auto simp: ds'_def list_all_iff)
  have eq: "fixed6_digits x e = take (length ds' - 6) ds' @ CHR ''.'' # drop (length ds' - 6) ds'"
    by (simp add: fixed6_digits_def Let_def n_def ds_def ds'_def)
  have "take (length ds' - 6) ds' \<noteq> []"
    using ds'(2) by auto
  moreover have "list_all is_digit (take (length ds' - 6) ds')" "list_all is_digit (drop (length ds' - 6) ds')"
    using ds'(1) by (auto simp: list_all_iff dest: in_set_takeD in_set_dropD)
  moreover have "length (drop (length ds' - 6) ds') = 6"
    using ds'(2) by simp
  ultimately show ?thesis
    using eq by blast
qed

lemma is_fixed6_shape:
  assumes "a \<noteq> []" "list_all is_digit a" "length b = 6" "list_all is_digit b"
  shows "is_fixed6 (a @ CHR ''.'' # b)" "is_fixed6 (CHR ''-'' # a @ CHR ''.'' # b)"
proof -
  have tw: "takeWhile is_digit (a @ CHR ''.'' # b) = a" "dropWhile is_digit (a @ CHR ''.'' # b) = CHR ''.'' # b"
    using assms(2) by (simp_all add: list_all_iff takeWhile_append2 dropWhile_append2)
  obtain c cs where a: "a = c # cs" "is_digit c"
    using assms(1,2) by (cases a) auto
  then have c: "c \<noteq> CHR ''-''"
    by auto
  show "is_fixed6 (a @ CHR ''.'' # b)"
    using tw assms a c by (simp add: is_fixed6_def)
  show "is_fixed6 (CHR ''-'' # a @ CHR ''.'' # b)"
    using tw assms by (simp add: is_fixed6_def)
qed

lemma toFixed6_fixed: "below_1e21 (nat \<bar>m\<bar>) e \<Longrightarrow> is_fixed6 (js_toFixed6 (Fin m e))"
proof -
  assume b: "below_1e21 (nat \<bar>m\<bar>) e"
  obtain a c where "fixed6_digits (nat \<bar>m\<bar>) e = a @ CHR ''.'' # c" "a \<noteq> []" "list_all is_digit a"
    "length c = 6" "list_all is_digit c"
    using fixed6_digits_shape by blast
  with b is_fixed6_shape [of a c] show ?thesis
    by simp
qed

lemma param_loop_end:
  assumes "i \<le> length l"
  shows "fst (param_loop (state_at l n i) its) = state_at l n (length l)"
    and "length (snd (param_loop (state_at l n i) its)) \<le> length its + (length l - i)"
proof -
  from param_loop_run [OF assms, of n its]
  obtain new where "param_loop (state_at l n i) its = (state_at l n (length l), its @ new)"
    and "length new \<le> length l - i"
    by blast
  then show "fst (param_loop (state_at l n i) its) = state_at l n (length l)"
    and "length (snd (param_loop (state_at l n i) its)) \<le> length its + (length l - i)"
    by simp_all
qed

lemma param_item_end:
  assumes "i < length l"
  shows "\<exists>j. snd (param_item (state_at l n i)) = state_at l n j \<and> i < j \<and> j \<le> length l"
proof -
  from param_item_progress [OF assms, of n]
  obtain item j where "param_item (state_at l n i) = (item, state_at l n j)" "i < j" "j \<le> length l"
    by blast
  then show ?thesis
    by (intro exI [of _ j]) simp
qed

lemma parseCommentLine_eq:
  "parseCommentLine l n =
     (let i1 = sp_end l 0; i2 = lit_end ''#'' l i1; i3 = sp_end l i2;
          i4 = until_end [CHR 0x0A] l i3; i5 = sp_end l i4
      in \<lparr>c_space0First = space_tok l n 0 i1, c_hash = str_tok l n i1 i2,
          c_space0HashToComment = space_tok l n i2 i3, c_comment = str_tok l n i3 i4,
          c_space0AfterComment = space_tok l n i4 i5\<rparr>)"
  by (simp add: parseCommentLine_def prim_eq Let_def)

lemma parseTrackNameLine_eq:
  "parseTrackNameLine l n =
     (let i1 = sp_end l 0; i2 = lit_end ''trackName:'' l i1; i3 = sp_end l i2;
          i4 = until_end [CHR 0x0A] l i3; i5 = sp_end l i4
      in \<lparr>tn_space0First = space_tok l n 0 i1, tn_literal = str_tok l n i1 i2,
          tn_space0LiteralToName = space_tok l n i2 i3, tn_name = trim_field (str_tok l n i3 i4),
          tn_space0AfterName = space_tok l n i4 i5\<rparr>)"
  by (simp add: parseTrackNameLine_def prim_eq Let_def)

lemma parseTextLine_eq:
  "parseTextLine l n =
     (let i1 = sp_end l 0; i2 = num_end l i1; i3 = sp_end l i2;
          i4 = until_end [CHR 0x0A] l i3; i5 = sp_end l i4
      in \<lparr>tx_space0First = space_tok l n 0 i1, tx_time = num_tok l n i1 i2,
          tx_space1TimeToText = space_tok l n i2 i3, tx_text = str_tok l n i3 i4,
          tx_space0AfterText = space_tok l n i4 i5\<rparr>)"
  by (simp add: parseTextLine_def prim_eq Let_def)

lemma parseIFrameLine_eq:
  "parseIFrameLine J l n =
     (let i1 = sp_end l 0; i2 = num_end l i1; i3 = sp_end l i2;
          i4 = lit_end ''SpecialFrames_Invincible'' l i3;
          i5 = until_end [CHR 0x0A] l i4; i6 = sp_end l i5;
          d = decode_json J (str_tok l n i4 i5)
      in \<lparr>if_space0First = space_tok l n 0 i1, if_time = num_tok l n i1 i2,
          if_space1TimeToEvent = space_tok l n i2 i3, if_event = str_tok l n i3 i4,
          if_json = fst d, if_space0AfterJson = space_tok l n i5 i6,
          if_jsonParseError = snd d\<rparr>)"
  by (simp add: parseIFrameLine_def prim_eq Let_def split: prod.splits)



lemma replicate_num: "replicate (numeral k) x = x # replicate (pred_numeral k) x"
  by (simp add: numeral_eq_Suc)

lemmas number_eval = js_Number_def strip_sign_def is_digit_def digits_val_def digit_val_def
  round_ratio_def bit_length.simps Let_def

lemmas fixed_eval = below_1e21_def fixed6_digits_def Let_def nat_to_dec.simps digit_char_def replicate_num

lemma toFixed6_90: "js_toFixed6 (js_Number ''90'') = ''90.000000''"
  by (simp add: number_eval fixed_eval cong: let_weak_cong)

lemma toFixed6_minus_90_5: "js_toFixed6 (js_Number ''-90.5'') = ''-90.500000''"
  by (simp add: number_eval fixed_eval cong: let_weak_cong)

lemma drop_sp_end: "drop (sp_end l i) l = r_space (drop i l)"
  by (simp add: sp_end_def r_space_def dropWhile_eq_drop add.commute)

lemma drop_num_end: "drop (num_end l i) l = r_number (drop i l)"
  by (simp add: num_end_def r_number_def add.commute)

lemma drop_lit_end: "drop (lit_end lit l i) l = r_literal lit (drop i l)"
  by (simp add: lit_end_def r_literal_def add.commute)

lemma drop_until_end: "drop (until_end s l i) l = dropWhile (\<lambda>c. c \<notin> set s) (drop i l)"
  by (simp add: until_end_def dropWhile_eq_drop add.commute)

lemma val_num_tok: "field_val (num_tok l n i (num_end l i)) = v_number (drop i l)"
  by (simp add: field_val_def num_tok_def num_end_def v_number_def slice_prefix num_prefix_is_prefix)

lemma val_lit_tok: "lit \<noteq> [] \<Longrightarrow> field_val (str_tok l n i (lit_end lit l i)) = v_literal lit (drop i l)"
  by (simp add: field_val_def str_tok_def lit_end_def v_literal_def slice_prefix)

lemma val_until_tok: "field_val (str_tok l n i (until_end s l i)) = v_until s (drop i l)"
  by (simp add: field_val_def str_tok_def until_end_def v_until_def slice_prefix
        takeWhile_eq_take [symmetric])

lemmas view_simps = drop_sp_end drop_num_end drop_lit_end drop_until_end
  val_num_tok val_lit_tok val_until_tok

lemma formatNode_rotation: "formatNode (Rotation (parseAnimRotationLine l n)) = fmt_rotation l"
  by (simp add: parseAnimRotationLine_eq Let_def fmt_rotation_def view_simps)

lemma formatNode_motion: "formatNode (Motion (parseAnimMotionLine l n)) = fmt_motion l"
  by (simp add: parseAnimMotionLine_eq Let_def fmt_motion_def view_simps)

lemma formatNode_text: "formatNode (Text (parseTextLine l n)) = fmt_text l"
  by (simp add: parseTextLine_eq Let_def fmt_text_def view_simps)

lemma formatNode_comment: "formatNode (Comment (parseCommentLine l n)) = fmt_comment l"
  by (simp add: parseCommentLine_eq Let_def fmt_comment_def view_simps)

lemma field_val_trim_field:
  "field_val (trim_field f) = (case field_val f of None \<Rightarrow> None | Some v \<Rightarrow> Some (if v \<noteq> [] then js_trim v else v))"
  by (cases f) (auto simp: trim_field_def field_val_def split: option.splits)

lemma js_trim_idem: "js_trim (js_trim v) = js_trim v"
proof -
  define a where "a = dropWhile is_space v"
  define b where "b = dropWhile is_space (rev a)"
  have b: "b = [] \<or> \<not> is_space (hd b)"
    unfolding b_def by (metis dropWhile_eq_Nil_conv hd_dropWhile)
  have "dropWhile is_space (rev b) = rev b"
  proof (cases "a = []")
    case True
    then show ?thesis by (simp add: b_def)
  next
    case False
    then have a: "\<not> is_space (hd a)"
      unfolding a_def by (metis hd_dropWhile)
    show ?thesis
    proof (cases "b = []")
      case True
      then show ?thesis by simp
    next
      case False
      have "rev a = takeWhile is_space (rev a) @ b"
        by (simp add: b_def)
      then have "a = rev b @ rev (takeWhile is_space (rev a))"
        by (metis rev_append rev_rev_ident)
      with False have "hd (rev b) = hd a"
        by (metis hd_append2 rev_is_Nil_conv)
      with a False show ?thesis
        by (cases "rev b") auto
    qed
  qed
  moreover have "dropWhile is_space (rev (rev b)) = b"
    using b by (cases b) auto
  ultimately show ?thesis
    by (simp add: js_trim_def a_def b_def)
qed

lemma formatNode_trackName: "formatNode (TrackName (parseTrackNameLine l n)) = fmt_trackName l"
  by (simp add: parseTrackNameLine_eq Let_def fmt_trackName_def view_simps field_val_trim_field
        js_trim_idem split: option.splits)

lemma parseHkannoLine_cases:
  "parseHkannoLine l n =
     (if js_startsWith (js_trimStart l) ''#'' then Comment (parseCommentLine l n)
      else if js_startsWith (js_toLowerCase (js_trimStart l)) ''trackname:''
           then TrackName (parseTrackNameLine l n)
      else if js_includes (js_toLowerCase l) ''animrotation'' then Rotation (parseAnimRotationLine l n)
      else if js_includes (js_toLowerCase l) ''animmotion'' then Motion (parseAnimMotionLine l n)
      else Text (parseTextLine l n))"
  by (simp add: parseHkannoLine_def commonParsers_def)

lemma formatNode_parseHkannoLine: "formatNode (parseHkannoLine l n) = fmt_line l"
  by (simp add: parseHkannoLine_cases fmt_line_def formatNode_comment formatNode_trackName
        formatNode_rotation formatNode_motion formatNode_text del: formatNode.simps)

lemma format_lines_map: "format_lines ls i = map fmt_line ls"
  by (induction ls arbitrary: i) (simp_all add: formatNode_parseHkannoLine)

lemma formatHkannoText_eq: "formatHkannoText text = js_join_nl (map fmt_line (js_split_nl text))"
  by (simp add: formatHkannoText_def format_lines_map)

lemma js_split_nl_nonempty: "js_split_nl s \<noteq> []"
  by (induction s) (auto split: list.splits)

lemma js_split_nl_no_nl: "l \<in> set (js_split_nl s) \<Longrightarrow> CHR 0x0A \<notin> set l"
proof (induction s arbitrary: l)
  case Nil
  then show ?case by simp
next
  case (Cons c cs)
  show ?case
  proof (cases "c = CHR 0x0A")
    case True
    with Cons show ?thesis by auto
  next
    case False
    obtain h t where ht: "js_split_nl cs = h # t"
      using js_split_nl_nonempty [of cs] by (cases "js_split_nl cs") auto
    with Cons.prems False have "l = c # h \<or> l \<in> set t"
      by simp
    then show ?thesis
      using Cons.IH [of h] Cons.IH [of l] ht False by auto
  qed
qed

lemma js_split_nl_line: "CHR 0x0A \<notin> set l \<Longrightarrow> js_split_nl l = [l]"
  by (induction l) auto

lemma js_split_nl_append: "CHR 0x0A \<notin> set l \<Longrightarrow> js_split_nl (l @ CHR 0x0A # r) = l # js_split_nl r"
  by (induction l) auto

lemma js_split_nl_join:
  "ls \<noteq> [] \<Longrightarrow> \<forall>l \<in> set ls. CHR 0x0A \<notin> set l \<Longrightarrow> js_split_nl (js_join_nl ls) = ls"
  by (induction ls rule: js_join_nl.induct) (simp_all add: js_split_nl_line js_split_nl_append)

lemma nat_to_dec_chars: "c \<in> set (nat_to_dec k) \<Longrightarrow> is_digit c"
  using nat_to_dec_digits [of k] by (simp add: list_all_iff)

lemma exp_notation_chars: "c \<in> set (exp_notation s n) \<Longrightarrow> num_char c"
proof -
  assume "c \<in> set (exp_notation s n)"
  then have "c \<in> set (nat_to_dec s) \<or> c \<in> set ''.e+'' \<or> c \<in> set (nat_to_dec (n - 1))"
    by (auto simp: exp_notation_def Let_def split: if_splits dest: in_set_takeD in_set_dropD)
  then show ?thesis
    by (auto simp: num_char_def dest: nat_to_dec_chars)
qed

lemma toString_large_chars: "c \<in> set (js_toString_large v x) \<Longrightarrow> num_char c"
  by (auto simp: js_toString_large_def split: prod.splits dest: exp_notation_chars)


lemma fixed6_digits_chars: "c \<in> set (fixed6_digits k e) \<Longrightarrow> num_char c"
proof -
  obtain a b where ab: "fixed6_digits k e = a @ CHR ''.'' # b" "list_all is_digit a" "list_all is_digit b"
    using fixed6_digits_shape by blast
  assume "c \<in> set (fixed6_digits k e)"
  with ab show ?thesis
    by (auto simp: num_char_def list_all_iff)
qed


lemma toFixed6_chars: "c \<in> set (js_toFixed6 x) \<Longrightarrow> num_char c"
proof (cases x)
  case (Fin m e)
  assume "c \<in> set (js_toFixed6 x)"
  with Fin have "c = CHR ''-'' \<or> c \<in> set (fixed6_digits (nat \<bar>m\<bar>) e)
                   \<or> c \<in> set (js_toString_large (nat \<bar>m\<bar> * 2 ^ nat e) (Fin \<bar>m\<bar> e))"
    by (auto split: if_splits)
  then show ?thesis
    by (auto simp: num_char_def dest: toString_large_chars fixed6_digits_chars)
qed (auto simp: num_char_def)


lemma num_char_not_space [simp]: "\<not> num_char CHR '' ''" "\<not> num_char CHR 0x0A"
  by (simp_all add: num_char_def is_digit_def)

lemma set_join_sp: "set (js_join_sp ps) \<subseteq> (\<Union>p \<in> set ps. set p) \<union> {CHR '' ''}"
  by (induction ps rule: js_join_sp.induct) auto

lemma rest_subset:
  "set r \<subseteq> A \<Longrightarrow> set (r_space r) \<subseteq> A"
  "set r \<subseteq> A \<Longrightarrow> set (r_number r) \<subseteq> A"
  "set r \<subseteq> A \<Longrightarrow> set (r_literal lit r) \<subseteq> A"
  by (auto simp: r_space_def r_number_def r_literal_def dest: set_dropWhileD in_set_dropD)

lemma set_v_until: "v_until s r = Some v \<Longrightarrow> set v \<subseteq> set r"
  by (auto simp: v_until_def split: if_splits dest: set_takeWhileD)

lemma set_v_literal: "v_literal lit r = Some v \<Longrightarrow> set v \<subseteq> set r"
proof -
  assume "v_literal lit r = Some v"
  then have "take (length v) r = v"
    by (auto simp: v_literal_def split: if_splits)
  then show ?thesis
    by (metis set_take_subset)
qed

lemma set_js_trim: "set (js_trim v) \<subseteq> set v"
  by (auto simp: js_trim_def dest!: set_dropWhileD)

lemma joinSpace1_chars:
  assumes "c \<in> set (joinSpace1 vs)"
  shows "c = CHR '' '' \<or> (\<exists>x. Some (Num x) \<in> set vs \<and> c \<in> set (js_toFixed6 x))
         \<or> (\<exists>s. Some (Str s) \<in> set vs \<and> c \<in> set s)"
proof -
  from assms set_join_sp [of "map formatValue (filter (\<lambda>v. v \<noteq> None) vs)"]
  have "c = CHR '' '' \<or> (\<exists>v \<in> set vs. v \<noteq> None \<and> c \<in> set (formatValue v))"
    by (auto simp: joinSpace1_def)
  then show ?thesis
  proof
    assume "\<exists>v \<in> set vs. v \<noteq> None \<and> c \<in> set (formatValue v)"
    then obtain v where v: "Some v \<in> set vs" "c \<in> set (formatValue (Some v))"
      by auto
    then show ?thesis
      by (cases v) (auto simp: formatValue_def)
  qed simp
qed

lemma fvalue_map_simps [simp]:
  "Some (Str s) = map_option Num y \<longleftrightarrow> False"
  "Some (Num x) = map_option Str z \<longleftrightarrow> False"
  "Some (Str s) = map_option Str z \<longleftrightarrow> z = Some s"
  "Some (Num x) = map_option Num y \<longleftrightarrow> y = Some x"
  by (cases y; cases z; auto)+

lemma fmt_rotation_chars:
  assumes "c \<in> set (fmt_rotation l)"
  shows "c = CHR '' '' \<or> num_char c \<or> c \<in> set l"
proof -
  let ?r1 = "r_space (r_number (r_space l))"
  have r1: "set ?r1 \<subseteq> set l"
    by (intro rest_subset subset_refl)
  from joinSpace1_chars [OF assms [unfolded fmt_rotation_def Let_def]]
  have "c = CHR '' '' \<or> (\<exists>x. c \<in> set (js_toFixed6 x)) \<or> (\<exists>s. v_literal ''animrotation'' ?r1 = Some s \<and> c \<in> set s)"
    by auto
  then show ?thesis
    using r1 by (auto dest: toFixed6_chars set_v_literal)
qed

lemma fmt_motion_chars:
  assumes "c \<in> set (fmt_motion l)"
  shows "c = CHR '' '' \<or> num_char c \<or> c \<in> set l"
proof -
  let ?r1 = "r_space (r_number (r_space l))"
  have r1: "set ?r1 \<subseteq> set l"
    by (intro rest_subset subset_refl)
  from joinSpace1_chars [OF assms [unfolded fmt_motion_def Let_def]]
  have "c = CHR '' '' \<or> (\<exists>x. c \<in> set (js_toFixed6 x)) \<or> (\<exists>s. v_literal ''animmotion'' ?r1 = Some s \<and> c \<in> set s)"
    by auto
  then show ?thesis
    using r1 by (auto dest: toFixed6_chars set_v_literal)
qed

lemma fmt_text_chars:
  assumes "c \<in> set (fmt_text l)"
  shows "c = CHR '' '' \<or> num_char c \<or> c \<in> set l"
proof -
  let ?r1 = "r_space (r_number (r_space l))"
  have r1: "set ?r1 \<subseteq> set l"
    by (intro rest_subset subset_refl)
  from joinSpace1_chars [OF assms [unfolded fmt_text_def Let_def]]
  have "c = CHR '' '' \<or> (\<exists>x. c \<in> set (js_toFixed6 x)) \<or> (\<exists>s. v_until [CHR 0x0A] ?r1 = Some s \<and> c \<in> set s)"
    by auto
  then show ?thesis
    using r1 by (auto dest: toFixed6_chars set_v_until)
qed

lemma fmt_comment_chars:
  assumes "c \<in> set (fmt_comment l)"
  shows "c = CHR '' '' \<or> c = CHR ''#'' \<or> c \<in> set l"
proof -
  let ?r1 = "r_space (r_literal ''#'' (r_space l))"
  have r1: "set ?r1 \<subseteq> set l"
    by (intro rest_subset subset_refl)
  from joinSpace1_chars [OF assms [unfolded fmt_comment_def]]
  have "c = CHR '' '' \<or> c = CHR ''#'' \<or> (\<exists>s. v_until [CHR 0x0A] ?r1 = Some s \<and> c \<in> set s)"
    by auto
  then show ?thesis
    using r1 by (auto dest: set_v_until)
qed

lemma fmt_trackName_chars:
  assumes "c \<in> set (fmt_trackName l)"
  shows "c \<in> set ''trackName: '' \<or> c \<in> set l"
proof -
  let ?r1 = "r_space (r_literal ''trackName:'' (r_space l))"
  have r1: "set ?r1 \<subseteq> set l"
    by (intro rest_subset subset_refl)
  from assms have "c \<in> set ''trackName: '' \<or> (\<exists>s. v_until [CHR 0x0A] ?r1 = Some s \<and> c \<in> set (js_trim s))"
    by (auto simp: fmt_trackName_def split: option.splits)
  then show ?thesis
    using r1 set_js_trim by (blast dest: set_v_until)
qed

lemma fmt_line_no_nl:
  assumes "CHR 0x0A \<notin> set l"
  shows "CHR 0x0A \<notin> set (fmt_line l)"
proof
  assume "CHR 0x0A \<in> set (fmt_line l)"
  then consider "CHR 0x0A \<in> set (fmt_comment l)" | "CHR 0x0A \<in> set (fmt_trackName l)"
    | "CHR 0x0A \<in> set (fmt_rotation l)" | "CHR 0x0A \<in> set (fmt_motion l)"
    | "CHR 0x0A \<in> set (fmt_text l)"
    by (auto simp: fmt_line_def split: if_splits)
  then show False
  proof cases
    case 1
    from fmt_comment_chars [OF this] assms show False by simp
  next
    case 2
    from fmt_trackName_chars [OF this] assms show False by simp
  next
    case 3
    from fmt_rotation_chars [OF this] assms show False by simp
  next
    case 4
    from fmt_motion_chars [OF this] assms show False by simp
  next
    case 5
    from fmt_text_chars [OF this] assms show False by simp
  qed
qed







lemma is_space_sp [simp]: "is_space CHR '' ''"
  by (simp add: is_space_def)

lemma hd_r_space: "r_space r \<noteq> [] \<Longrightarrow> \<not> is_space (hd (r_space r))"
  unfolding r_space_def by (rule hd_dropWhile)














lemma tiles_space: "i \<le> j \<Longrightarrow> tiles n (Suc j) ps e \<Longrightarrow> tiles n (Suc i) (sp (space_tok l n i j) # ps) e"
  by (auto simp: sp_def space_tok_def makePos_def)

lemma tiles_num: "i \<le> j \<Longrightarrow> tiles n (Suc j) ps e \<Longrightarrow> tiles n (Suc i) (fp (num_tok l n i j) # ps) e"
  by (auto simp: fp_def num_tok_def makePos_def)

lemma tiles_str: "i \<le> j \<Longrightarrow> tiles n (Suc j) ps e \<Longrightarrow> tiles n (Suc i) (fp (str_tok l n i j) # ps) e"
  by (auto simp: fp_def str_tok_def makePos_def)

lemma tiles_trim: "tiles n c (fp (trim_field f) # ps) e = tiles n c (fp f # ps) e"
  by (cases f) (auto simp: fp_def trim_field_def split: option.splits)

lemma tiles_refl: "tiles n c [] c"
  by simp

lemma tiles_append: "tiles n c ps d \<Longrightarrow> tiles n d qs e \<Longrightarrow> tiles n c (ps @ qs) e"
  by (induction n c ps d rule: tiles.induct) auto

lemma tiles_bounds:
  "tiles n c ps e \<Longrightarrow>
   c \<le> e \<and> (\<forall>p. Some (Some p) \<in> set ps \<longrightarrow>
             line p = n \<and> c \<le> startColumn p \<and> startColumn p < endColumn p \<and> endColumn p \<le> e)"
proof (induction n c ps e rule: tiles.induct)
  case (4 n c p ps e)
  then have "endColumn p \<le> e" and
    "\<forall>q. Some (Some q) \<in> set ps \<longrightarrow>
         line q = n \<and> endColumn p \<le> startColumn q \<and> startColumn q < endColumn q \<and> endColumn q \<le> e"
    and "line p = n" "startColumn p = c" "c < endColumn p"
    by auto
  then show ?case
    by fastforce
qed auto

lemmas end_bounds = sp_end_bounds num_end_bounds lit_end_bounds until_end_bounds

lemma rotation_tiles:
  "\<exists>e. e \<le> length l \<and> tiles n (Suc 0) (node_spans (Rotation (parseAnimRotationLine l n))) (Suc e)"
proof -
  define i1 i2 i3 i4 i5 i6 i7 where "i1 = sp_end l 0" and "i2 = num_end l i1"
    and "i3 = sp_end l i2" and "i4 = lit_end ''animrotation'' l i3" and "i5 = sp_end l i4"
    and "i6 = num_end l i5" and "i7 = sp_end l i6"
  note defs = i1_def i2_def i3_def i4_def i5_def i6_def i7_def
  have "i7 \<le> length l"
    unfolding defs by (intro end_bounds) simp
  moreover have "tiles n (Suc 0) (node_spans (Rotation (parseAnimRotationLine l n))) (Suc i7)"
    unfolding parseAnimRotationLine_eq Let_def defs [symmetric]
    by (simp del: tiles.simps, unfold defs, intro tiles_space tiles_num tiles_str tiles_refl end_bounds)
  ultimately show ?thesis
    by blast
qed

lemma motion_tiles:
  "\<exists>e. e \<le> length l \<and> tiles n (Suc 0) (node_spans (Motion (parseAnimMotionLine l n))) (Suc e)"
proof -
  define i1 i2 i3 i4 i5 i6 i7 i8 i9 i10 i11 where "i1 = sp_end l 0" and "i2 = num_end l i1"
    and "i3 = sp_end l i2" and "i4 = lit_end ''animmotion'' l i3" and "i5 = sp_end l i4"
    and "i6 = num_end l i5" and "i7 = sp_end l i6" and "i8 = num_end l i7"
    and "i9 = sp_end l i8" and "i10 = num_end l i9" and "i11 = sp_end l i10"
  note defs = i1_def i2_def i3_def i4_def i5_def i6_def i7_def i8_def i9_def i10_def i11_def
  have "i11 \<le> length l"
    unfolding defs by (intro end_bounds) simp
  moreover have "tiles n (Suc 0) (node_spans (Motion (parseAnimMotionLine l n))) (Suc i11)"
    unfolding parseAnimMotionLine_eq Let_def defs [symmetric]
    by (simp del: tiles.simps, unfold defs, intro tiles_space tiles_num tiles_str tiles_refl end_bounds)
  ultimately show ?thesis
    by blast
qed

lemma text_tiles:
  "\<exists>e. e \<le> length l \<and> tiles n (Suc 0) (node_spans (Text (parseTextLine l n))) (Suc e)"
proof -
  define i1 i2 i3 i4 i5 where "i1 = sp_end l 0" and "i2 = num_end l i1"
    and "i3 = sp_end l i2" and "i4 = until_end [CHR 0x0A] l i3" and "i5 = sp_end l i4"
  note defs = i1_def i2_def i3_def i4_def i5_def
  have "i5 \<le> length l"
    unfolding defs by (intro end_bounds) simp
  moreover have "tiles n (Suc 0) (node_spans (Text (parseTextLine l n))) (Suc i5)"
    unfolding parseTextLine_eq Let_def defs [symmetric]
    by (simp del: tiles.simps, unfold defs, intro tiles_space tiles_num tiles_str tiles_refl end_bounds)
  ultimately show ?thesis
    by blast
qed

lemma comment_tiles:
  "\<exists>e. e \<le> length l \<and> tiles n (Suc 0) (node_spans (Comment (parseCommentLine l n))) (Suc e)"
proof -
  define i1 i2 i3 i4 i5 where "i1 = sp_end l 0" and "i2 = lit_end ''#'' l i1"
    and "i3 = sp_end l i2" and "i4 = until_end [CHR 0x0A] l i3" and "i5 = sp_end l i4"
  note defs = i1_def i2_def i3_def i4_def i5_def
  have "i5 \<le> length l"
    unfolding defs by (intro end_bounds) simp
  moreover have "tiles n (Suc 0) (node_spans (Comment (parseCommentLine l n))) (Suc i5)"
    unfolding parseCommentLine_eq Let_def defs [symmetric]
    by (simp del: tiles.simps, unfold defs, intro tiles_space tiles_num tiles_str tiles_refl end_bounds)
  ultimately show ?thesis
    by blast
qed

lemma trackName_tiles:
  "\<exists>e. e \<le> length l \<and> tiles n (Suc 0) (node_spans (TrackName (parseTrackNameLine l n))) (Suc e)"
proof -
  define i1 i2 i3 i4 i5 where "i1 = sp_end l 0" and "i2 = lit_end ''trackName:'' l i1"
    and "i3 = sp_end l i2" and "i4 = until_end [CHR 0x0A] l i3" and "i5 = sp_end l i4"
  note defs = i1_def i2_def i3_def i4_def i5_def
  have "i5 \<le> length l"
    unfolding defs by (intro end_bounds) simp
  moreover have "tiles n (Suc 0) (node_spans (TrackName (parseTrackNameLine l n))) (Suc i5)"
    unfolding parseTrackNameLine_eq Let_def defs [symmetric]
    by (simp del: tiles.simps, unfold defs,
        intro tiles_space tiles_num tiles_str tiles_trim [THEN iffD2] tiles_refl end_bounds)
  ultimately show ?thesis
    by blast
qed

lemma fp_decode_json: "fp (fst (decode_json J f)) = fp f"
  by (cases f) (auto simp: fp_def decode_json_def split: option.splits sum.splits)

lemma iframe_tiles:
  "\<exists>e. e \<le> length l \<and> tiles n (Suc 0) (node_spans_ext (IFrame (parseIFrameLine J l n))) (Suc e)"
proof -
  define i1 i2 i3 i4 i5 i6 where "i1 = sp_end l 0" and "i2 = num_end l i1"
    and "i3 = sp_end l i2" and "i4 = lit_end ''SpecialFrames_Invincible'' l i3"
    and "i5 = until_end [CHR 0x0A] l i4" and "i6 = sp_end l i5"
  note defs = i1_def i2_def i3_def i4_def i5_def i6_def
  have "i6 \<le> length l"
    unfolding defs by (intro end_bounds) simp
  moreover have "tiles n (Suc 0) (node_spans_ext (IFrame (parseIFrameLine J l n))) (Suc i6)"
    unfolding parseIFrameLine_eq Let_def defs [symmetric]
    by (simp add: fp_decode_json del: tiles.simps, unfold defs,
        intro tiles_space tiles_num tiles_str tiles_refl end_bounds)
  ultimately show ?thesis
    by blast
qed

lemma tiles_one_char:
  "tiles n (Suc (Suc i)) ps e \<Longrightarrow> tiles n (Suc i) (fp (Some (one_char_field (state_at l n i) ch)) # ps) e"
  by (simp add: fp_def one_char_field_def makePos_def)

lemma param_item_tiles:
  assumes "i < length l"
  shows "\<exists>item j. param_item (state_at l n i) = (item, state_at l n j) \<and> i < j \<and> j \<le> length l
           \<and> tiles n (Suc i) (item_spans item) (Suc j)"
proof (cases "l ! i = CHR ''|''")
  case True
  let ?j = "until_end ''|'' l (Suc i)"
  have b: "Suc i \<le> ?j" "?j \<le> length l"
    using assms by (simp_all add: until_end_bounds)
  have "tiles n (Suc i) (item_spans (fst (param_item (state_at l n i)))) (Suc ?j)"
    using assms True b
    by (simp add: param_item_def cur_at prim_eq item_spans_def del: tiles.simps)
       (intro tiles_one_char tiles_str tiles_refl, simp)
  then show ?thesis
    using assms True b by (intro exI [of _ "fst (param_item (state_at l n i))"] exI [of _ ?j])
      (simp add: param_item_bar)
next
  case False
  let ?j = "until_end ''|'' l i"
  have b: "i < ?j" "?j \<le> length l"
    using assms False by (simp_all add: until_end_bounds until_end_step)
  have "tiles n (Suc i) (item_spans (fst (param_item (state_at l n i)))) (Suc ?j)"
    using assms False b
    by (simp add: param_item_other item_spans_def fp_def str_tok_def makePos_def)
  then show ?thesis
    using assms False b by (intro exI [of _ "fst (param_item (state_at l n i))"] exI [of _ ?j])
      (simp add: param_item_other)
qed

lemma param_loop_tiles:
  "i \<le> length l \<Longrightarrow>
   \<exists>new. param_loop (state_at l n i) its = (state_at l n (length l), its @ new)
        \<and> tiles n (Suc i) (concat (map item_spans new)) (Suc (length l))"
proof (induction "length l - i" arbitrary: i its rule: less_induct)
  case less
  show ?case
  proof (cases "i < length l")
    case False
    with less.prems have "i = length l" by simp
    then show ?thesis
      by (subst param_loop.simps) simp
  next
    case True
    from param_item_tiles [OF True, of n]
    obtain item j where item: "param_item (state_at l n i) = (item, state_at l n j)"
      and ij: "i < j" and jl: "j \<le> length l"
      and t: "tiles n (Suc i) (item_spans item) (Suc j)"
      by blast
    have "length l - j < length l - i"
      using True ij by simp
    from less.hyps [OF this jl, of "its @ [item]"]
    obtain new where run: "param_loop (state_at l n j) (its @ [item]) = (state_at l n (length l), (its @ [item]) @ new)"
      and tn: "tiles n (Suc j) (concat (map item_spans new)) (Suc (length l))"
      by blast
    have "param_loop (state_at l n i) its = param_loop (state_at l n j) (its @ [item])"
      using True by (subst param_loop.simps) (simp add: item)
    then have "param_loop (state_at l n i) its = (state_at l n (length l), its @ (item # new))"
      using run by simp
    moreover have "tiles n (Suc i) (concat (map item_spans (item # new))) (Suc (length l))"
      using tiles_append [OF t tn] by simp
    ultimately show ?thesis
      by blast
  qed
qed

lemma instruction_tiles:
  assumes "i \<le> length l"
  shows "\<exists>e. e \<le> length l \<and>
           tiles n (Suc i) (instruction_spans (fst (parse_instruction (state_at l n i)))) (Suc e)"
proof (cases "i < length l \<and> (l ! i = CHR ''@'' \<or> l ! i = CHR ''$'' \<or> l ! i = CHR ''!'')")
  case False
  then have "fst (parse_instruction (state_at l n i)) = None"
    by (auto simp: parse_instruction_def cur_at)
  with assms show ?thesis
    by (intro exI [of _ i]) (simp add: instruction_spans_def)
next
  case True
  let ?j = "until_end ''|'' l (Suc i)"
  have b: "Suc i \<le> ?j" "?j \<le> length l"
    using True by (simp_all add: until_end_bounds)
  show ?thesis
  proof (cases "?j < length l \<and> l ! ?j = CHR ''|''")
    case False
    then have "instruction_spans (fst (parse_instruction (state_at l n i)))
               = [fp (Some (one_char_field (state_at l n i) (l ! i))), fp (str_tok l n (Suc i) ?j)]"
      using True by (auto simp: parse_instruction_def cur_at prim_eq parse_parameters_def
                       instruction_spans_def)
    moreover have "tiles n (Suc i) [fp (Some (one_char_field (state_at l n i) (l ! i))), fp (str_tok l n (Suc i) ?j)] (Suc ?j)"
      using b by (intro tiles_one_char tiles_str tiles_refl)
    ultimately show ?thesis
      using b by (intro exI [of _ ?j]) simp
  next
    case bar: True
    from param_loop_tiles [OF b(2), of n "[]"]
    obtain new where run: "param_loop (state_at l n ?j) [] = (state_at l n (length l), [] @ new)"
      and tn: "tiles n (Suc ?j) (concat (map item_spans new)) (Suc (length l))"
      by blast
    have "instruction_spans (fst (parse_instruction (state_at l n i)))
               = [fp (Some (one_char_field (state_at l n i) (l ! i))), fp (str_tok l n (Suc i) ?j)]
                 @ concat (map item_spans new)"
      using True bar run by (auto simp: parse_instruction_def cur_at prim_eq parse_parameters_def
                       instruction_spans_def Let_def)
    moreover have "tiles n (Suc i) ([fp (Some (one_char_field (state_at l n i) (l ! i))), fp (str_tok l n (Suc i) ?j)]
                 @ concat (map item_spans new)) (Suc (length l))"
      using b tn by (intro tiles_append [OF _ tn] tiles_one_char tiles_str tiles_refl)
    ultimately show ?thesis
      by (intro exI [of _ "length l"]) simp
  qed
qed

lemma payload_tiles:
  "\<exists>e. e \<le> length l \<and>
     tiles n (Suc 0) (node_spans_ext (PayloadInstruction (parsePayloadInstructionLine l n))) (Suc e)"
proof -
  define i1 i2 i3 i4 where "i1 = sp_end l 0" and "i2 = num_end l i1"
    and "i3 = sp_end l i2" and "i4 = until_end ''.'' l i3"
  note defs = i1_def i2_def i3_def i4_def
  define i5 where "i5 = (if i4 < length l \<and> l ! i4 = CHR ''.'' then Suc i4 else i4)"
  define dot where "dot = (if i4 < length l \<and> l ! i4 = CHR ''.''
                           then Some \<lparr>val = Some ''.'', pos = Some (makePos n i4 (Suc i4))\<rparr> else None)"
  have i4: "i4 \<le> length l"
    unfolding defs by (intro end_bounds) simp
  then have i5: "i5 \<le> length l"
    by (simp add: i5_def)
  from instruction_tiles [OF i5, of n]
  obtain e where e: "e \<le> length l"
    and te: "tiles n (Suc i5) (instruction_spans (fst (parse_instruction (state_at l n i5)))) (Suc e)"
    by blast
  have td: "tiles n (Suc i4) [fp dot] (Suc i5)"
    by (simp add: dot_def i5_def fp_def makePos_def)
  have head: "tiles n (Suc 0) [sp (space_tok l n 0 i1), fp (num_tok l n i1 i2),
                 sp (space_tok l n i2 i3), fp (str_tok l n i3 i4)] (Suc i4)"
    unfolding defs by (intro tiles_space tiles_num tiles_str tiles_refl end_bounds)
  have "node_spans_ext (PayloadInstruction (parsePayloadInstructionLine l n))
        = [sp (space_tok l n 0 i1), fp (num_tok l n i1 i2),
                 sp (space_tok l n i2 i3), fp (str_tok l n i3 i4)] @ [fp dot]
          @ instruction_spans (fst (parse_instruction (state_at l n i5)))"
    by (simp add: parsePayloadInstructionLine_eq Let_def defs i5_def dot_def)
  with tiles_append [OF head tiles_append [OF td te]] e show ?thesis
    by auto
qed

lemma tiles_no_missing_span: "tiles n c ps e \<Longrightarrow> Some None \<notin> set ps"
  by (induction n c ps e rule: tiles.induct) auto

lemma tiles_well_formed:
  assumes "tiles n (Suc 0) ps (Suc e)" and "e \<le> length l"
  shows "well_formed l n ps"
  unfolding well_formed_def
proof
  fix t
  assume t: "t \<in> set ps"
  show "case t of None \<Rightarrow> True | Some None \<Rightarrow> False
        | Some (Some p) \<Rightarrow> line p = n \<and> 1 \<le> startColumn p \<and> startColumn p < endColumn p \<and>
            endColumn p \<le> length l + 1"
  proof (cases t)
    case None
    then show ?thesis by simp
  next
    case (Some u)
    show ?thesis
    proof (cases u)
      case None
      with Some t tiles_no_missing_span [OF assms(1)] show ?thesis
        by simp
    next
      case (Some p)
      with \<open>t = Some u\<close> t tiles_bounds [OF assms(1)] assms(2) show ?thesis
        by fastforce
    qed
  qed
qed

lemma parseHkannoLineExt_cases:
  "parseHkannoLineExt J l n =
     (if js_includes (js_toLowerCase l) ''specialframes_invincible'' then IFrame (parseIFrameLine J l n)
      else if js_includes (js_toLowerCase l) ''pie''
           then PayloadInstruction (parsePayloadInstructionLine l n)
      else Common (parseHkannoLine l n))"
  by (simp add: parseHkannoLineExt_def extParser_def commonParsers_def parseHkannoLine_cases)

lemma common_tiles:
  "\<exists>e. e \<le> length l \<and> tiles n (Suc 0) (node_spans (parseHkannoLine l n)) (Suc e)"
  unfolding parseHkannoLine_cases
  using rotation_tiles motion_tiles text_tiles comment_tiles trackName_tiles
  by (simp del: node_spans.simps tiles.simps)

lemma ext_tiles:
  "\<exists>e. e \<le> length l \<and> tiles n (Suc 0) (node_spans_ext (parseHkannoLineExt J l n)) (Suc e)"
  unfolding parseHkannoLineExt_cases
  using common_tiles iframe_tiles payload_tiles
  by (simp del: node_spans_ext.simps(2,3) tiles.simps)

lemma kind_closed: "kind x \<in> set [''rotation'', ''motion'', ''text'', ''comment'', ''trackName'']"
  by (cases x) simp_all

lemma kind_ext_closed:
  "kind_ext x \<in> set [''rotation'', ''motion'', ''text'', ''comment'', ''trackName'', ''iframe'',
                       ''payload_instruction'']"
proof (cases x)
  case (Common y)
  with kind_closed [of y] show ?thesis by auto
qed simp_all

lemma spans_chars_makePos: "i \<le> j \<Longrightarrow> spans_chars n i j (makePos n i j)"
  by (simp add: spans_chars_def makePos_def)

lemma slice_length: "i \<le> j \<Longrightarrow> j \<le> length l \<Longrightarrow> length (js_slice l i j) = j - i"
  by (simp add: js_slice_def)

lemma primitive_spans:
  assumes "st_len st = length (st_line st)" and "st_i st \<le> st_len st"
  shows "case parseSpace st of
           (t, st') \<Rightarrow>
             (case t of
                None \<Rightarrow> st_i st' = st_i st
              | Some x \<Rightarrow>
                  st_i st < st_i st' \<and> spans_chars (st_lineNumber st) (st_i st) (st_i st') (space_pos x) \<and>
                  rawText x = js_slice (st_line st) (st_i st) (st_i st') \<and>
                  length (rawText x) = st_i st' - st_i st)"
    and "case parseNumberField st of
           (t, st') \<Rightarrow>
             (case t of
                None \<Rightarrow> st_i st' = st_i st
              | Some x \<Rightarrow>
                  st_i st < st_i st' \<and>
                  (\<exists>p. pos x = Some p \<and> spans_chars (st_lineNumber st) (st_i st) (st_i st') p) \<and>
                  val x = Some (js_Number (js_slice (st_line st) (st_i st) (st_i st'))))"
    and "lit \<noteq> [] \<Longrightarrow>
         case parseLiteralField st lit of
           (t, st') \<Rightarrow>
             (case t of
                None \<Rightarrow> st_i st' = st_i st
              | Some x \<Rightarrow>
                  st_i st < st_i st' \<and>
                  (\<exists>p. pos x = Some p \<and> spans_chars (st_lineNumber st) (st_i st) (st_i st') p) \<and>
                  val x = Some (js_slice (st_line st) (st_i st) (st_i st')) \<and>
                  length lit = st_i st' - st_i st)"
    and "case parseFieldUntil st stops of
           (t, st') \<Rightarrow>
             (case t of
                None \<Rightarrow> st_i st' = st_i st
              | Some x \<Rightarrow>
                  st_i st < st_i st' \<and>
                  (\<exists>p. pos x = Some p \<and> spans_chars (st_lineNumber st) (st_i st) (st_i st') p) \<and>
                  (\<exists>v. val x = Some v \<and> v = js_slice (st_line st) (st_i st) (st_i st') \<and>
                       length v = st_i st' - st_i st))"
proof -
  define l n i where "l = st_line st" and "n = st_lineNumber st" and "i = st_i st"
  have st: "st = state_at l n i"
    using assms(1) by (simp add: state_at_def l_def n_def i_def)
  have i: "i \<le> length l"
    using assms by (simp add: l_def i_def)
  note b = sp_end_bounds [of i l] num_end_bounds [of i l] until_end_bounds [where i = i and s = stops and l = l]
  show "case parseSpace st of
           (t, st') \<Rightarrow>
             (case t of
                None \<Rightarrow> st_i st' = st_i st
              | Some x \<Rightarrow>
                  st_i st < st_i st' \<and> spans_chars (st_lineNumber st) (st_i st) (st_i st') (space_pos x) \<and>
                  rawText x = js_slice (st_line st) (st_i st) (st_i st') \<and>
                  length (rawText x) = st_i st' - st_i st)"
    using i b by (auto simp: st parseSpace_eq space_tok_def spans_chars_makePos slice_length)
  show "case parseNumberField st of
           (t, st') \<Rightarrow>
             (case t of
                None \<Rightarrow> st_i st' = st_i st
              | Some x \<Rightarrow>
                  st_i st < st_i st' \<and>
                  (\<exists>p. pos x = Some p \<and> spans_chars (st_lineNumber st) (st_i st) (st_i st') p) \<and>
                  val x = Some (js_Number (js_slice (st_line st) (st_i st) (st_i st'))))"
    using i b by (auto simp: st parseNumberField_eq num_tok_def spans_chars_makePos)
  show "case parseLiteralField st lit of
           (t, st') \<Rightarrow>
             (case t of
                None \<Rightarrow> st_i st' = st_i st
              | Some x \<Rightarrow>
                  st_i st < st_i st' \<and>
                  (\<exists>p. pos x = Some p \<and> spans_chars (st_lineNumber st) (st_i st) (st_i st') p) \<and>
                  val x = Some (js_slice (st_line st) (st_i st) (st_i st')) \<and>
                  length lit = st_i st' - st_i st)" if "lit \<noteq> []"
    using that i by (auto simp: st parseLiteralField_at spans_chars_makePos slice_prefix)
  show "case parseFieldUntil st stops of
           (t, st') \<Rightarrow>
             (case t of
                None \<Rightarrow> st_i st' = st_i st
              | Some x \<Rightarrow>
                  st_i st < st_i st' \<and>
                  (\<exists>p. pos x = Some p \<and> spans_chars (st_lineNumber st) (st_i st) (st_i st') p) \<and>
                  (\<exists>v. val x = Some v \<and> v = js_slice (st_line st) (st_i st) (st_i st') \<and>
                       length v = st_i st' - st_i st))"
    using i b by (auto simp: st parseFieldUntil_eq str_tok_def spans_chars_makePos slice_length)
qed

lemma stable_numeral_str: "stable_number v \<Longrightarrow> numeral_str (js_toFixed6 v)"
proof -
  assume "stable_number v"
  then obtain m e where v: "v = Fin m e" and b: "below_1e21 (nat \<bar>m\<bar>) e"
    by (cases v) (auto simp: stable_number_def)
  obtain a c where "fixed6_digits (nat \<bar>m\<bar>) e = a @ CHR ''.'' # c" "a \<noteq> []" "list_all is_digit a"
    "list_all is_digit c"
    using fixed6_digits_shape by blast
  moreover have "js_toFixed6 v = (if m < 0 then ''-'' else []) @ fixed6_digits (nat \<bar>m\<bar>) e"
    using v b by simp
  ultimately show ?thesis
    unfolding numeral_str_def
    by (intro exI [of _ "if m < 0 then ''-'' else []"] exI [of _ a] exI [of _ c]) simp
qed

lemma stable_roundtrip: "stable_number v \<Longrightarrow> js_toFixed6 (js_Number (js_toFixed6 v)) = js_toFixed6 v"
  by (cases v) (auto simp: stable_number_def)

lemma num_prefix_Nil_iff: "num_prefix r = [] \<longleftrightarrow> r = [] \<or> \<not> num_start (hd r)"
proof (cases r)
  case Nil
  then show ?thesis
    by (simp add: num_prefix_def sign_prefix_def exp_prefix_def)
next
  case (Cons c cs)
  then show ?thesis
    by (auto simp: num_prefix_def sign_prefix_def exp_prefix_def num_start_def is_digit_dot_def Let_def)
qed

lemma digits_dots_take:
  assumes "list_all is_digit a" "list_all is_digit b" "r = [] \<or> \<not> is_digit_dot (hd r)"
  shows "takeWhile is_digit_dot (a @ CHR ''.'' # b @ r) = a @ CHR ''.'' # b"
proof -
  have "\<forall>x \<in> set (a @ CHR ''.'' # b). is_digit_dot x"
    using assms(1,2) by (auto simp: list_all_iff is_digit_dot_def)
  moreover have "takeWhile is_digit_dot r = []"
    using assms(3) by (cases r) auto
  ultimately have "takeWhile is_digit_dot ((a @ CHR ''.'' # b) @ r) = a @ CHR ''.'' # b"
    by (simp only: takeWhile_append2) simp
  then show ?thesis
    by simp
qed

lemma num_prefix_numeral:
  assumes "numeral_str N" and "r = [] \<or> \<not> num_start (hd r)"
  shows "num_prefix (N @ r) = N"
proof -
  from assms(1) obtain sg a b where N: "N = sg @ a @ CHR ''.'' # b" and sg: "sg = [] \<or> sg = ''-''"
    and a: "a \<noteq> []" "list_all is_digit a" and b: "list_all is_digit b"
    by (auto simp: numeral_str_def)
  from a obtain d ds where ad: "a = d # ds" "is_digit d"
    by (cases a) auto
  have r1: "r = [] \<or> \<not> is_digit_dot (hd r)"
    using assms(2) by (auto simp: num_start_def is_digit_dot_def)
  have ex: "exp_prefix r = []"
    using assms(2) by (cases r) (auto simp: exp_prefix_def num_start_def)
  have sp: "sign_prefix (N @ r) = sg"
    using sg ad N by (auto simp: sign_prefix_def is_digit_def)
  have dd: "takeWhile is_digit_dot (drop (length sg) (N @ r)) = a @ CHR ''.'' # b"
    using digits_dots_take [OF a(2) b r1] by (simp add: N)
  have dr: "drop (length sg + length (a @ CHR ''.'' # b)) (N @ r) = r"
    by (simp add: N)
  have "num_prefix (N @ r)
        = sg @ (a @ CHR ''.'' # b) @ exp_prefix (drop (length sg + length (a @ CHR ''.'' # b)) (N @ r))"
    by (simp only: num_prefix_def Let_def sp dd)
  also have "\<dots> = sg @ (a @ CHR ''.'' # b)"
    by (simp only: dr ex append_Nil2)
  finally show ?thesis
    by (simp add: N)
qed

lemma numeral_str_hd:
  "numeral_str N \<Longrightarrow> N \<noteq> [] \<and> (is_digit (hd N) \<or> hd N = CHR ''-'')"
proof -
  assume "numeral_str N"
  then obtain sg a b where N: "N = sg @ a @ CHR ''.'' # b" and sg: "sg = [] \<or> sg = ''-''"
    and a: "a \<noteq> []" "list_all is_digit a"
    by (auto simp: numeral_str_def)
  then show ?thesis
    by (cases a) auto
qed

lemma numeral_str_chars:
  "numeral_str N \<Longrightarrow> c \<in> set N \<Longrightarrow> is_digit c \<or> c = CHR ''.'' \<or> c = CHR ''-''"
  by (auto simp: numeral_str_def list_all_iff)

lemma v_number_numeral:
  "numeral_str N \<Longrightarrow> r = [] \<or> \<not> num_start (hd r) \<Longrightarrow> v_number (N @ r) = Some (js_Number N)"
  using numeral_str_hd [of N] by (simp add: v_number_def num_prefix_numeral)

lemma r_number_numeral:
  "numeral_str N \<Longrightarrow> r = [] \<or> \<not> num_start (hd r) \<Longrightarrow> r_number (N @ r) = r"
  by (simp add: r_number_def num_prefix_numeral)

lemma r_space_id: "r = [] \<or> \<not> is_space (hd r) \<Longrightarrow> r_space r = r"
  by (cases r) (auto simp: r_space_def)

lemma r_space_sp [simp]: "r_space (CHR '' '' # r) = r_space r"
  by (simp add: r_space_def)

lemma r_space_idem [simp]: "r_space (r_space r) = r_space r"
  using hd_r_space [of r] by (intro r_space_id) auto

lemma digit_not_space: "is_digit c \<Longrightarrow> \<not> is_space c"
  by (auto simp: is_digit_def is_space_def)

lemma numeral_not_space: "numeral_str N \<Longrightarrow> \<not> is_space (hd (N @ r))"
proof -
  assume "numeral_str N"
  from numeral_str_hd [OF this] have "N \<noteq> []" and h: "is_digit (hd N) \<or> hd N = CHR ''-''"
    by auto
  then have "hd (N @ r) = hd N"
    by simp
  moreover have "\<not> is_space CHR ''-''"
    by (simp add: is_space_def)
  ultimately show ?thesis
    using h digit_not_space by auto
qed

lemma r_space_numeral: "numeral_str N \<Longrightarrow> r_space (N @ r) = N @ r"
  using numeral_not_space [of N r] by (intro r_space_id) simp

lemma v_number_None: "r = [] \<or> \<not> num_start (hd r) \<Longrightarrow> v_number r = None"
  by (simp add: v_number_def num_prefix_Nil_iff)

lemma r_number_None: "r = [] \<or> \<not> num_start (hd r) \<Longrightarrow> r_number r = r"
proof -
  assume "r = [] \<or> \<not> num_start (hd r)"
  then have "num_prefix r = []"
    by (simp add: num_prefix_Nil_iff)
  then show ?thesis
    by (simp add: r_number_def)
qed

lemma v_number_None_iff: "v_number r = None \<longleftrightarrow> r = [] \<or> \<not> num_start (hd r)"
  by (simp add: v_number_def num_prefix_Nil_iff)

lemma stable_good: "stable_number v \<Longrightarrow> good (js_toFixed6 v)"
  by (simp add: good_def stable_numeral_str stable_roundtrip)

lemma js_startsWith_prefix: "js_startsWith s p \<longleftrightarrow> prefix p s"
proof
  assume "js_startsWith s p"
  then have "take (length p) s = p"
    by (simp add: js_startsWith_def)
  then show "prefix p s"
    by (metis take_is_prefix)
next
  assume "prefix p s"
  then show "js_startsWith s p"
    by (auto simp: js_startsWith_def prefix_def)
qed

lemma js_includes_sublist: "js_includes s p \<longleftrightarrow> sublist p s"
  by (induction s) (auto simp: sublist_Cons_right js_startsWith_prefix)

lemma sublist_trans: "sublist a b \<Longrightarrow> sublist b c \<Longrightarrow> sublist a c"
  by (metis sublist_order.order_trans)

lemma includes_lower_mono:
  "sublist t l \<Longrightarrow> js_includes (js_toLowerCase t) p \<Longrightarrow> js_includes (js_toLowerCase l) p"
  unfolding js_includes_sublist js_toLowerCase_def
  by (meson map_mono_sublist sublist_trans)

lemma sublist_skip:
  assumes "p \<noteq> []" and "hd p \<notin> set a"
  shows "sublist p (a @ s) \<longleftrightarrow> sublist p s"
  using assms(2)
proof (induction a)
  case Nil
  then show ?case by simp
next
  case (Cons x a)
  have "\<not> prefix p (x # a @ s)"
  proof
    assume "prefix p (x # a @ s)"
    with assms(1) have "hd p = x"
      by (cases p) auto
    with Cons.prems show False by simp
  qed
  with Cons show ?case
    by (simp add: sublist_Cons_right)
qed

lemma lower_digit: "is_digit c \<Longrightarrow> lower_char c = c"
  by (auto simp: lower_char_def is_digit_def Let_def)

lemma numeral_lower: "numeral_str N \<Longrightarrow> map lower_char N = N"
proof -
  assume n: "numeral_str N"
  have "lower_char c = c" if "c \<in> set N" for c
  proof -
    from numeral_str_chars [OF n that] show ?thesis
      by (auto simp: lower_digit) (simp_all add: lower_char_def)
  qed
  then show ?thesis
    by (simp add: map_idI)
qed

lemma numeral_no_letter:
  "numeral_str N \<Longrightarrow> c \<in> set ''#abcdefghijklmnopqrstuvwxyz:_ '' \<Longrightarrow> c \<notin> set N"
proof
  assume n: "numeral_str N" and c: "c \<in> set ''#abcdefghijklmnopqrstuvwxyz:_ ''" and "c \<in> set N"
  from numeral_str_chars [OF n \<open>c \<in> set N\<close>] c show False
    by (auto simp: is_digit_def)
qed

lemma includes_numeral_skip:
  assumes "numeral_str N" and "p \<noteq> []" and "hd p \<in> set ''#abcdefghijklmnopqrstuvwxyz:_ ''"
  shows "js_includes (map lower_char (N @ r)) p \<longleftrightarrow> js_includes (map lower_char r) p"
proof -
  have "hd p \<notin> set N"
    using assms(1,3) by (rule numeral_no_letter)
  then have "sublist p (N @ map lower_char r) \<longleftrightarrow> sublist p (map lower_char r)"
    using assms(2) by (intro sublist_skip)
  then show ?thesis
    by (simp add: js_includes_sublist numeral_lower [OF assms(1)])
qed

lemma startsWith_numeral:
  assumes "numeral_str N" and "p \<noteq> []" and "hd p \<in> set ''#abcdefghijklmnopqrstuvwxyz:_ ''"
  shows "\<not> js_startsWith (map lower_char (N @ r)) p" and "\<not> js_startsWith (N @ r) p"
proof -
  from numeral_str_hd [OF assms(1)] obtain d ds where N: "N = d # ds"
    by (cases N) auto
  have d: "hd p \<noteq> d"
    using numeral_no_letter [OF assms(1,3)] N by auto
  have "lower_char d = d"
    using numeral_lower [OF assms(1)] N by simp
  with d assms(2) show "\<not> js_startsWith (map lower_char (N @ r)) p"
    by (cases p) (auto simp: js_startsWith_prefix N)
  from d assms(2) show "\<not> js_startsWith (N @ r) p"
    by (cases p) (auto simp: js_startsWith_prefix N)
qed

lemma trimStart_r_space: "js_trimStart s = r_space s"
  by (simp add: js_trimStart_def r_space_def)

lemma fmt_line_numeral_text:
  assumes "numeral_str N"
    and "\<not> js_includes (map lower_char r) ''animrotation''"
    and "\<not> js_includes (map lower_char r) ''animmotion''"
  shows "fmt_line (N @ r) = fmt_text (N @ r)"
  using assms startsWith_numeral [OF assms(1), of "''#''" r]
    startsWith_numeral [OF assms(1), of "''trackname:''" r]
  by (simp add: fmt_line_def trimStart_r_space r_space_numeral js_toLowerCase_def
        includes_numeral_skip del: map_append)

section \<open>Claims\<close>

subsection \<open>The parameter list of a payload instruction\<close>

text \<open>
  Claim C3, as the specification words it: in every parameters list that
  \<^verbatim>\<open>parsePayloadInstructionLine\<close> produces, the separator of the first item is absent.
  The code does the opposite, and its test expects what the code does: the loop is
  entered on a \<^verbatim>\<open>|\<close> and every pass but one that starts at the end of line starts
  on a \<^verbatim>\<open>|\<close>. What holds: a parameters list is never empty, and every item of it,
  the first one too, carries the separator \<^verbatim>\<open>|\<close>; only the value of an item may be
  absent.
\<close>

theorem payload_parameter_separators_present:
  "case pi_instruction (parsePayloadInstructionLine l n) of
     None \<Rightarrow> True
   | Some ins \<Rightarrow>
       (case in_parameters ins of
          None \<Rightarrow> True
        | Some ps \<Rightarrow>
            items ps \<noteq> [] \<and>
            (\<forall>it \<in> set (items ps). \<exists>f. separator it = Some f \<and> val f = Some ''|''))"
proof (cases "pi_instruction (parsePayloadInstructionLine l n)")
  case None
  then show ?thesis by simp
next
  case (Some ins)
  show ?thesis
  proof (cases "in_parameters ins")
    case None
    with Some show ?thesis by simp
  next
    case (Some ps)
    let ?i5 = "let i4 = until_end ''.'' l (sp_end l (num_end l (sp_end l 0)))
               in (if i4 < length l \<and> l ! i4 = CHR ''.'' then Suc i4 else i4)"
    have "fst (parse_instruction (state_at l n ?i5)) = Some ins"
      using \<open>pi_instruction (parsePayloadInstructionLine l n) = Some ins\<close>
      by (simp add: parsePayloadInstructionLine_eq Let_def)
    then obtain st' where "parse_instruction (state_at l n ?i5) = (Some ins, st')"
      by (cases "parse_instruction (state_at l n ?i5)") simp
    from parse_instruction_items [OF payload_cursor_bound this Some]
    show ?thesis
      using \<open>pi_instruction (parsePayloadInstructionLine l n) = Some ins\<close> Some by simp
  qed
qed

theorem payload_parameter_separators_present_witness:
  "pi_instruction (parsePayloadInstructionLine ''0.3 PIE.@A||b'' 1) \<noteq> None \<and>
   (case pi_instruction (parsePayloadInstructionLine ''0.3 PIE.@A||b'' 1) of
     None \<Rightarrow> True
   | Some ins \<Rightarrow>
       (case in_parameters ins of
          None \<Rightarrow> True
        | Some ps \<Rightarrow>
            items ps \<noteq> [] \<and>
            (\<forall>it \<in> set (items ps). \<exists>f. separator it = Some f \<and> val f = Some ''|'')))"
proof
  show "pi_instruction (parsePayloadInstructionLine ''0.3 PIE.@A||b'' 1) \<noteq> None"
    by (simp add: parsePayloadInstructionLine_eq parse_instruction_def cur_at tok_eval
          split: prod.splits cong: let_weak_cong)
  show "case pi_instruction (parsePayloadInstructionLine ''0.3 PIE.@A||b'' 1) of
     None \<Rightarrow> True
   | Some ins \<Rightarrow>
       (case in_parameters ins of
          None \<Rightarrow> True
        | Some ps \<Rightarrow>
            items ps \<noteq> [] \<and>
            (\<forall>it \<in> set (items ps). \<exists>f. separator it = Some f \<and> val f = Some ''|''))"
    by (rule payload_parameter_separators_present)
qed

theorem payload_first_separator_counterexample:
  "parsePayloadInstructionLine ''0.3 PIE.@A|b'' 1 =
     \<lparr>pi_space0First = None,
      pi_time = Some \<lparr>val = Some (js_Number ''0.3''), pos = Some \<lparr>line = 1, startColumn = 1, endColumn = 4\<rparr>\<rparr>,
      pi_space1TimeToEvent = Some \<lparr>rawText = '' '', space_pos = \<lparr>line = 1, startColumn = 4, endColumn = 5\<rparr>\<rparr>,
      pi_event = Some \<lparr>val = Some ''PIE'', pos = Some \<lparr>line = 1, startColumn = 5, endColumn = 8\<rparr>\<rparr>,
      pi_dot = Some \<lparr>val = Some ''.'', pos = Some \<lparr>line = 1, startColumn = 8, endColumn = 9\<rparr>\<rparr>,
      pi_instruction = Some
        \<lparr>in_prefix = Some \<lparr>val = Some ''@'', pos = Some \<lparr>line = 1, startColumn = 9, endColumn = 10\<rparr>\<rparr>,
         in_name = Some \<lparr>val = Some ''A'', pos = Some \<lparr>line = 1, startColumn = 10, endColumn = 11\<rparr>\<rparr>,
         in_parameters = Some
           \<lparr>items =
              [\<lparr>separator = Some \<lparr>val = Some ''|'', pos = Some \<lparr>line = 1, startColumn = 11, endColumn = 12\<rparr>\<rparr>,
                item_value = Some \<lparr>val = Some ''b'', pos = Some \<lparr>line = 1, startColumn = 12, endColumn = 13\<rparr>\<rparr>\<rparr>],
            params_pos = Some \<lparr>line = 1, startColumn = 11, endColumn = 13\<rparr>\<rparr>\<rparr>\<rparr>"
  by (simp add: parsePayloadInstructionLine_eq parse_instruction_def parse_parameters_def
        param_loop.simps param_item_def one_char_field_def cur_at prim_eq tok_eval
        cong: let_weak_cong)

subsection \<open>The numeric field\<close>

text \<open>
  Claim C4, as the specification words it: \<^verbatim>\<open>parseNumberField\<close> returns absent when no
  character matched and never commits a malformed numeral; on a bare \<^verbatim>\<open>+\<close> or \<^verbatim>\<open>-\<close>
  it returns absent and leaves the cursor before the sign. The first half holds. The
  second does not: the function checks nothing but that some character was taken. What
  holds, for every state whose \<^verbatim>\<open>len\<close> is the length of its line: the field is absent
  exactly when the cursor has not moved; a present field spans the characters taken and
  its value is \<^verbatim>\<open>Number\<close> of them; and when a lone sign is all that is left, the sign
  is taken, the cursor moves past it and the value is NaN.
\<close>

theorem parseNumberField_absent_iff_cursor_unmoved:
  assumes "st_len st = length (st_line st)"
  shows "case parseNumberField st of
           (f, st') \<Rightarrow>
             st' = st\<lparr>st_i := st_i st'\<rparr> \<and> st_i st \<le> st_i st' \<and>
             (f = None \<longleftrightarrow> st_i st' = st_i st) \<and>
             (f \<noteq> None \<longrightarrow>
                f = Some \<lparr>val = Some (js_Number (js_slice (st_line st) (st_i st) (st_i st'))),
                          pos = Some (makePos (st_lineNumber st) (st_i st) (st_i st'))\<rparr>) \<and>
             (drop (st_i st) (st_line st) = ''+'' \<or> drop (st_i st) (st_line st) = ''-'' \<longrightarrow>
                st_i st' = st_i st + 1 \<and> map_option val f = Some (Some NaN))"
proof -
  define l n i where "l = st_line st" and "n = st_lineNumber st" and "i = st_i st"
  have st: "st = state_at l n i"
    using assms by (simp add: state_at_def l_def n_def i_def)
  have sign: "num_end l i = i + 1 \<and> js_Number (js_slice l i (i + 1)) = NaN"
    if "drop i l = ''+'' \<or> drop i l = ''-''"
  proof -
    have "num_prefix ''+'' = ''+''" "num_prefix ''-'' = ''-''"
      by (simp_all add: num_prefix_def sign_prefix_def exp_prefix_def)
    with that have np: "num_prefix (drop i l) = drop i l"
      by auto
    from that have len: "length (drop i l) = 1"
      by (auto simp del: length_drop dest!: arg_cong [where f = length])
    have "js_slice l i (i + 1) = drop i l"
      using len by (simp add: js_slice_def)
    moreover have "js_Number ''+'' = NaN" "js_Number ''-'' = NaN"
      by (simp_all add: js_Number_def strip_sign_def)
    ultimately show ?thesis
      using that np len by (auto simp: num_end_def)
  qed
  have "i \<le> num_end l i"
    by (rule num_end_bounds)
  then show ?thesis
    using sign by (auto simp: st parseNumberField_eq num_tok_def)
qed

theorem parseNumberField_absent_iff_cursor_unmoved_witness:
  "st_len (init_state ''5 -'' 1) = length (st_line (init_state ''5 -'' 1)) \<and>
   parseNumberField (init_state ''5 -'' 1) =
     (Some \<lparr>val = Some (js_Number ''5''), pos = Some \<lparr>line = 1, startColumn = 1, endColumn = 2\<rparr>\<rparr>,
      (init_state ''5 -'' 1)\<lparr>st_i := 1\<rparr>)"
proof -
  have len: "st_len (init_state ''5 -'' 1) = length (st_line (init_state ''5 -'' 1))"
    by (simp add: init_state_def)
  from parseNumberField_absent_iff_cursor_unmoved [OF len]
  have "case parseNumberField (init_state ''5 -'' 1) of
          (f, st') \<Rightarrow> st' = (init_state ''5 -'' 1)\<lparr>st_i := st_i st'\<rparr> \<and> (f = None \<longleftrightarrow> st_i st' = 0)"
    by (auto simp: init_state_def split: prod.splits)
  moreover have "parseNumberField (init_state ''5 -'' 1) =
     (Some \<lparr>val = Some (js_Number ''5''), pos = Some \<lparr>line = 1, startColumn = 1, endColumn = 2\<rparr>\<rparr>,
      (init_state ''5 -'' 1)\<lparr>st_i := 1\<rparr>)"
    by (simp add: prim_eq tok_eval cong: let_weak_cong)
  ultimately show ?thesis
    using len by simp
qed

theorem parseNumberField_bare_sign_counterexample:
  "parseNumberField (init_state ''+'' 1) =
     (Some \<lparr>val = Some NaN, pos = Some \<lparr>line = 1, startColumn = 1, endColumn = 2\<rparr>\<rparr>,
      (init_state ''+'' 1)\<lparr>st_i := 1\<rparr>)"
  by (simp add: prim_eq tok_eval js_Number_def strip_sign_def cong: let_weak_cong)

subsection \<open>Termination\<close>

text \<open>
  Claim C9: every parse call terminates; each primitive advances the cursor or returns
  at once, and every loop, the parameter loop of the payload parser included, consumes
  input, so a parse is bounded by the length of the line.

  Each loop of the source is a \<^theory_text>\<open>function\<close> of this theory whose termination is
  proved with the measure \<open>st_len st - st_i st\<close>, so every parser is a total function.
  The theorem gives the bounds: from a state inside its line, a primitive leaves a
  state that differs in the cursor only, with the cursor not before where it was and
  not beyond the end of the line; one pass of the parameter loop moves the cursor
  forward by one character at least; and the parameter loop ends with the cursor at
  the end of the line, after no more passes (items pushed) than characters were left.
\<close>

theorem parse_loops_consume_input:
  assumes "st_len st = length (st_line st)" and "st_i st \<le> st_len st"
  shows "(\<forall>p \<in> {snd (parseSpace st), snd (parseNumberField st),
                 snd (parseLiteralField st lit), snd (parseFieldUntil st stops)}.
            p = st\<lparr>st_i := st_i p\<rparr> \<and> st_i st \<le> st_i p \<and> st_i p \<le> st_len st) \<and>
         (st_i st < st_len st \<longrightarrow>
            (let p = snd (param_item st)
             in p = st\<lparr>st_i := st_i p\<rparr> \<and> st_i st < st_i p \<and> st_i p \<le> st_len st)) \<and>
         (case param_loop st its of
            (p, its') \<Rightarrow>
              p = st\<lparr>st_i := st_len st\<rparr> \<and> length its' \<le> length its + (st_len st - st_i st))"
proof -
  define l n i where "l = st_line st" and "n = st_lineNumber st" and "i = st_i st"
  have st: "st = state_at l n i"
    using assms(1) by (simp add: state_at_def l_def n_def i_def)
  have i: "i \<le> length l"
    using assms by (simp add: l_def i_def)
  have lit: "snd (parseLiteralField (state_at l n i) lit) = state_at l n (lit_end lit l i)"
    by (simp add: parseLiteralField_at lit_end_def)
  have prims: "\<forall>p \<in> {snd (parseSpace st), snd (parseNumberField st),
                 snd (parseLiteralField st lit), snd (parseFieldUntil st stops)}.
            p = st\<lparr>st_i := st_i p\<rparr> \<and> st_i st \<le> st_i p \<and> st_i p \<le> st_len st"
    using i by (simp add: st parseSpace_eq parseNumberField_eq lit parseFieldUntil_eq
                  sp_end_bounds num_end_bounds lit_end_bounds until_end_bounds)
  have item: "st_i st < st_len st \<longrightarrow>
            (let p = snd (param_item st)
             in p = st\<lparr>st_i := st_i p\<rparr> \<and> st_i st < st_i p \<and> st_i p \<le> st_len st)"
  proof
    assume "st_i st < st_len st"
    then have "i < length l"
      by (simp add: st)
    from param_item_end [OF this, of n]
    show "let p = snd (param_item st)
          in p = st\<lparr>st_i := st_i p\<rparr> \<and> st_i st < st_i p \<and> st_i p \<le> st_len st"
      by (auto simp: st Let_def)
  qed
  have loop: "case param_loop st its of
            (p, its') \<Rightarrow>
              p = st\<lparr>st_i := st_len st\<rparr> \<and> length its' \<le> length its + (st_len st - st_i st)"
    using param_loop_end [OF i, of n its]
    by (cases "param_loop (state_at l n i) its") (simp add: st)
  from prims item loop show ?thesis
    by blast
qed

theorem parse_loops_consume_input_witness:
  "st_len (state_at ''|a||b'' 1 0) = length (st_line (state_at ''|a||b'' 1 0)) \<and>
   st_i (state_at ''|a||b'' 1 0) \<le> st_len (state_at ''|a||b'' 1 0) \<and>
   st_i (state_at ''|a||b'' 1 0) < st_len (state_at ''|a||b'' 1 0) \<and>
   fst (param_loop (state_at ''|a||b'' 1 0) []) = state_at ''|a||b'' 1 (length ''|a||b'') \<and>
   length (snd (param_loop (state_at ''|a||b'' 1 0) [])) \<le> length ''|a||b''"
  using parse_loops_consume_input
          [where st = "state_at ''|a||b'' 1 0" and its = "[]" and lit = "''#''" and stops = "''|''"]
  by (cases "param_loop (state_at ''|a||b'' 1 0) []") simp

subsection \<open>The embedded JSON of an invincibility-frame line\<close>



subsection \<open>Numeric precision\<close>

text \<open>
  Claim C7, as the specification words it: the formatter renders every parsed numeric
  field value in fixed-point notation, never scientific, with exactly six digits after
  the decimal point; 90 renders as 90.000000 and -90.5 as -90.500000.

  \<^verbatim>\<open>toFixed(6)\<close> does so for the finite values below \<open>10 ^ 21\<close> in magnitude only, and
  \<^verbatim>\<open>parseNumberField\<close> yields other values: NaN for a numeral that is not well formed
  (a bare sign, two dots, a lone exponent marker), an infinity for a numeral beyond the
  range of doubles, and values from \<open>10 ^ 21\<close> on. What holds: a finite value below
  \<open>10 ^ 21\<close> in magnitude renders as an optional minus sign, one digit or more, a point
  and exactly six digits; NaN renders as \<^verbatim>\<open>NaN\<close>, the infinities as \<^verbatim>\<open>Infinity\<close> and
  \<^verbatim>\<open>-Infinity\<close>; and the two examples are as stated.
\<close>

theorem formatValue_six_fraction_digits:
  "(below_1e21 (nat \<bar>m\<bar>) e \<longrightarrow> is_fixed6 (formatValue (Some (Num (Fin m e))))) \<and>
   formatValue (Some (Num NaN)) = ''NaN'' \<and>
   formatValue (Some (Num PosInf)) = ''Infinity'' \<and>
   formatValue (Some (Num NegInf)) = ''-Infinity'' \<and>
   formatValue (Some (Num (js_Number ''90''))) = ''90.000000'' \<and>
   formatValue (Some (Num (js_Number ''-90.5''))) = ''-90.500000''"
  using toFixed6_fixed [of m e] by (simp add: formatValue_def toFixed6_90 toFixed6_minus_90_5)

theorem formatValue_six_fraction_digits_witness:
  "below_1e21 (nat \<bar>- 181\<bar>) (- 1) \<and> formatValue (Some (Num (Fin (- 181) (- 1)))) = ''-90.500000'' \<and>
   is_fixed6 (formatValue (Some (Num (Fin (- 181) (- 1)))))"
proof -
  have b: "below_1e21 (nat \<bar>- 181\<bar>) (- 1)"
    by (simp add: below_1e21_def)
  have "formatValue (Some (Num (Fin (- 181) (- 1)))) = ''-90.500000''"
    by (simp add: formatValue_def fixed_eval cong: let_weak_cong)
  with b formatValue_six_fraction_digits [of "- 181" "- 1"] show ?thesis
    by simp
qed

theorem formatValue_not_a_number_counterexample:
  "field_val (tx_time (parseTextLine ''-'' 1)) = Some NaN \<and>
   formatNode (Text (parseTextLine ''-'' 1)) = ''NaN'' \<and>
   \<not> is_fixed6 ''NaN''"
  by (simp add: parseTextLine_eq tok_eval field_val_def joinSpace1_def formatValue_def
        js_Number_def strip_sign_def is_fixed6_def cong: let_weak_cong)

subsection \<open>Whole-document formatting keeps the number of lines\<close>

text \<open>
  Claim C8: \<^verbatim>\<open>formatHkannoText\<close> is total and preserves the number of lines: the output has
  exactly as many pieces between line feeds as the input.

  \<open>formatHkannoText\<close> is a total function of the model. A formatted line holds no line
  feed, since it is made of characters of the line it comes from, of rendered numbers
  and of single spaces, so splitting the output gives back the formatted lines, one for
  each line of the input.
\<close>

theorem formatHkannoText_preserves_line_count:
  "length (js_split_nl (formatHkannoText text)) = length (js_split_nl text)"
proof -
  have "\<forall>l \<in> set (map fmt_line (js_split_nl text)). CHR 0x0A \<notin> set l"
    using fmt_line_no_nl js_split_nl_no_nl by auto
  moreover have "map fmt_line (js_split_nl text) \<noteq> []"
    by (simp add: js_split_nl_nonempty)
  ultimately have "js_split_nl (formatHkannoText text) = map fmt_line (js_split_nl text)"
    unfolding formatHkannoText_eq by (intro js_split_nl_join)
  then show ?thesis
    by simp
qed

subsection \<open>Separators of the formatter\<close>




subsection \<open>Totality\<close>

text \<open>
  Claim C1: for every input string, the empty one and those of white space or with
  unmatched brackets or quotes included, and every line number, both entry points
  (\<^verbatim>\<open>parseHkannoLine\<close> and \<^verbatim>\<open>parseHkannoLineExt\<close>) return a well-formed node of the closed
  set of kinds and never raise.

  The one call of the parsers that can throw is \<^verbatim>\<open>JSON.parse\<close>, inside a \<^verbatim>\<open>try\<close>; the
  model takes it as the parameter \<open>JSON_parse\<close>, and the theorem holds for every
  behaviour of it. Both entry points are total functions of the model. The node of the
  lenient one is of one of five kinds, that of the extended one of one of seven, and the
  node is well formed: every token of it that is present has a span, on the line number
  given, of one character at least, and inside the line.
\<close>

theorem parse_entry_points_total:
  "kind (parseHkannoLine l n) \<in> set [''rotation'', ''motion'', ''text'', ''comment'', ''trackName''] \<and>
   kind_ext (parseHkannoLineExt JSON_parse l n)
     \<in> set [''rotation'', ''motion'', ''text'', ''comment'', ''trackName'', ''iframe'',
             ''payload_instruction''] \<and>
   well_formed l n (node_spans (parseHkannoLine l n)) \<and>
   well_formed l n (node_spans_ext (parseHkannoLineExt JSON_parse l n))"
proof -
  obtain e where "e \<le> length l" "tiles n (Suc 0) (node_spans (parseHkannoLine l n)) (Suc e)"
    using common_tiles by blast
  then have 1: "well_formed l n (node_spans (parseHkannoLine l n))"
    by (intro tiles_well_formed)
  obtain e' where "e' \<le> length l"
    "tiles n (Suc 0) (node_spans_ext (parseHkannoLineExt JSON_parse l n)) (Suc e')"
    using ext_tiles by blast
  then have 2: "well_formed l n (node_spans_ext (parseHkannoLineExt JSON_parse l n))"
    by (intro tiles_well_formed)
  from 1 2 kind_closed kind_ext_closed show ?thesis
    by blast
qed

theorem parse_entry_points_total_witness:
  "kind_ext (parseHkannoLineExt (\<lambda>s. Inl []) ''0.5 SpecialFrames_Invincible{\"'' 7) = ''iframe'' \<and>
   well_formed ''0.5 SpecialFrames_Invincible{\"'' 7
     (node_spans_ext (parseHkannoLineExt (\<lambda>s. Inl []) ''0.5 SpecialFrames_Invincible{\"'' 7)) \<and>
   kind (parseHkannoLine '''' 1) = ''text'' \<and>
   well_formed '''' 1 (node_spans (parseHkannoLine '''' 1))"
proof -
  have "kind_ext (parseHkannoLineExt (\<lambda>s. Inl []) ''0.5 SpecialFrames_Invincible{\"'' 7) = ''iframe''"
    by (simp add: parseHkannoLineExt_cases js_toLowerCase_def lower_char_def js_startsWith_def)
  moreover have "kind (parseHkannoLine '''' 1) = ''text''"
    by (simp add: parseHkannoLine_cases js_toLowerCase_def js_trimStart_def js_startsWith_def)
  ultimately show ?thesis
    using parse_entry_points_total [of "''0.5 SpecialFrames_Invincible{\"''" 7 "\<lambda>s. Inl []"]
      parse_entry_points_total [of "''''" 1 "\<lambda>s. Inl []"]
    by blast
qed

subsection \<open>Span consistency\<close>

text \<open>
  Claim C5: for every field or white-space token that a parse call produces and that is
  present, the end column less the start column is the number of characters consumed for
  that token, and the line of the span is the line number given to the call.

  For the primitives, from any state inside its line: a token is absent exactly when the
  cursor has not moved, and the span of a present token is that of the characters between
  the cursor before and the cursor after the call, on the line number of the state; the
  text a token carries is those characters. For the nodes of both entry points: the spans
  of the present tokens, in the order of the grammar, tile the line from column 1 on, each
  starting where the one before it ended, on the line number given, and the last ends
  inside the line.
\<close>

theorem span_consistency:
  assumes "st_len st = length (st_line st)" and "st_i st \<le> st_len st" and "lit \<noteq> []"
  shows "(case parseSpace st of
           (t, st') \<Rightarrow>
             (case t of
                None \<Rightarrow> st_i st' = st_i st
              | Some x \<Rightarrow>
                  st_i st < st_i st' \<and> spans_chars (st_lineNumber st) (st_i st) (st_i st') (space_pos x) \<and>
                  rawText x = js_slice (st_line st) (st_i st) (st_i st') \<and>
                  length (rawText x) = st_i st' - st_i st)) \<and>
         (case parseNumberField st of
           (t, st') \<Rightarrow>
             (case t of
                None \<Rightarrow> st_i st' = st_i st
              | Some x \<Rightarrow>
                  st_i st < st_i st' \<and>
                  (\<exists>p. pos x = Some p \<and> spans_chars (st_lineNumber st) (st_i st) (st_i st') p) \<and>
                  val x = Some (js_Number (js_slice (st_line st) (st_i st) (st_i st'))))) \<and>
         (case parseLiteralField st lit of
           (t, st') \<Rightarrow>
             (case t of
                None \<Rightarrow> st_i st' = st_i st
              | Some x \<Rightarrow>
                  st_i st < st_i st' \<and>
                  (\<exists>p. pos x = Some p \<and> spans_chars (st_lineNumber st) (st_i st) (st_i st') p) \<and>
                  val x = Some (js_slice (st_line st) (st_i st) (st_i st')) \<and>
                  length lit = st_i st' - st_i st)) \<and>
         (case parseFieldUntil st stops of
           (t, st') \<Rightarrow>
             (case t of
                None \<Rightarrow> st_i st' = st_i st
              | Some x \<Rightarrow>
                  st_i st < st_i st' \<and>
                  (\<exists>p. pos x = Some p \<and> spans_chars (st_lineNumber st) (st_i st) (st_i st') p) \<and>
                  (\<exists>v. val x = Some v \<and> v = js_slice (st_line st) (st_i st) (st_i st') \<and>
                       length v = st_i st' - st_i st))) \<and>
         (\<exists>e. e \<le> length l \<and> tiles n 1 (node_spans (parseHkannoLine l n)) (e + 1)) \<and>
         (\<exists>e. e \<le> length l \<and> tiles n 1 (node_spans_ext (parseHkannoLineExt JSON_parse l n)) (e + 1))"
  using primitive_spans [OF assms(1,2)] assms(3) common_tiles [of l n] ext_tiles [of l n JSON_parse]
  by simp

theorem span_consistency_witness:
  "st_len (init_state ''  7 x'' 3) = length (st_line (init_state ''  7 x'' 3)) \<and>
   st_i (init_state ''  7 x'' 3) \<le> st_len (init_state ''  7 x'' 3) \<and> ''#'' \<noteq> [] \<and>
   parseSpace (init_state ''  7 x'' 3) =
     (Some \<lparr>rawText = ''  '', space_pos = \<lparr>line = 3, startColumn = 1, endColumn = 3\<rparr>\<rparr>,
      (init_state ''  7 x'' 3)\<lparr>st_i := 2\<rparr>) \<and>
   spans_chars 3 0 2 \<lparr>line = 3, startColumn = 1, endColumn = 3\<rparr> \<and>
   (\<exists>e. e \<le> length ''  7 x'' \<and> tiles 3 1 (node_spans (parseHkannoLine ''  7 x'' 3)) (e + 1))"
proof -
  have a: "st_len (init_state ''  7 x'' 3) = length (st_line (init_state ''  7 x'' 3))"
    and b: "st_i (init_state ''  7 x'' 3) \<le> st_len (init_state ''  7 x'' 3)"
    and c: "''#'' \<noteq> []"
    by (simp_all add: init_state_def)
  have p: "parseSpace (init_state ''  7 x'' 3) =
     (Some \<lparr>rawText = ''  '', space_pos = \<lparr>line = 3, startColumn = 1, endColumn = 3\<rparr>\<rparr>,
      (init_state ''  7 x'' 3)\<lparr>st_i := 2\<rparr>)"
    by (simp add: prim_eq tok_eval cong: let_weak_cong)
  note inst = span_consistency [OF a b c, of "''|''" "''  7 x''" 3 "\<lambda>s. Inl []"]
  from inst have s: "case parseSpace (init_state ''  7 x'' 3) of
           (t, st') \<Rightarrow>
             (case t of
                None \<Rightarrow> st_i st' = st_i (init_state ''  7 x'' 3)
              | Some x \<Rightarrow>
                  st_i (init_state ''  7 x'' 3) < st_i st' \<and>
                  spans_chars (st_lineNumber (init_state ''  7 x'' 3)) (st_i (init_state ''  7 x'' 3))
                    (st_i st') (space_pos x) \<and>
                  rawText x = js_slice (st_line (init_state ''  7 x'' 3)) (st_i (init_state ''  7 x'' 3)) (st_i st') \<and>
                  length (rawText x) = st_i st' - st_i (init_state ''  7 x'' 3))"
    by (rule conjunct1)
  from inst have t: "\<exists>e. e \<le> length ''  7 x'' \<and> tiles 3 1 (node_spans (parseHkannoLine ''  7 x'' 3)) (e + 1)"
    by blast
  from s [unfolded p] have "spans_chars 3 0 2 \<lparr>line = 3, startColumn = 1, endColumn = 3\<rparr>"
    by (simp add: init_state_def)
  with a b c p t show ?thesis
    by blast
qed

end
